theory Spec2Isabelle
  imports Complex_Main
begin

section \<open>JavaScript values\<close>

text \<open>
  The values the scripts handle are the ones \<^verbatim>\<open>JSON.parse\<close> produces, together with
  \<^verbatim>\<open>undefined\<close>. A number is the real it denotes (no infinities); where the scripts
  compute with numbers, the result is rounded as the runtime rounds it (see \<open>to_double\<close>
  below). An object is the list of its own properties, looked up by name.
\<close>

datatype jsval =
    JUndefined
  | JNull
  | JBool bool
  | JNum real
  | JStr string
  | JArr "jsval list"
  | JObj "(string \<times> jsval) list"

datatype exn = TypeError | SyntaxError | FetchError

text \<open>Truthiness, as \<^verbatim>\<open>!v\<close>, \<^verbatim>\<open>&&\<close> and \<^verbatim>\<open>||\<close> test it.\<close>

fun truthy :: "jsval \<Rightarrow> bool" where
  "truthy JUndefined = False"
| "truthy JNull = False"
| "truthy (JBool b) = b"
| "truthy (JNum r) = (r \<noteq> 0)"
| "truthy (JStr s) = (s \<noteq> [])"
| "truthy (JArr xs) = True"
| "truthy (JObj kvs) = True"

text \<open>
  Property read \<^verbatim>\<open>v.k\<close>: a TypeError on \<^verbatim>\<open>null\<close> and \<^verbatim>\<open>undefined\<close>, the own property of
  an object, \<^verbatim>\<open>length\<close> of an array or a string, and \<^verbatim>\<open>undefined\<close> otherwise (the scripts
  read no index and no inherited member).
\<close>

fun get :: "jsval \<Rightarrow> string \<Rightarrow> exn + jsval" where
  "get JUndefined k = Inl TypeError"
| "get JNull k = Inl TypeError"
| "get (JObj kvs) k = Inr (case map_of kvs k of None \<Rightarrow> JUndefined | Some v \<Rightarrow> v)"
| "get (JArr xs) k = Inr (if k = ''length'' then JNum (real (length xs)) else JUndefined)"
| "get (JStr s) k = Inr (if k = ''length'' then JNum (real (length s)) else JUndefined)"
| "get (JBool b) k = Inr JUndefined"
| "get (JNum r) k = Inr JUndefined"

text \<open>
  Conversion to a number, as \<^verbatim>\<open>*\<close> and \<^verbatim>\<open>>\<close> apply it to an operand; \<open>None\<close> is NaN.
  What the runtime makes of a string, an array or an object is the parameter \<open>coerce\<close>.
\<close>

fun ToNumber :: "(jsval \<Rightarrow> real option) \<Rightarrow> jsval \<Rightarrow> real option" where
  "ToNumber coerce (JNum r) = Some r"
| "ToNumber coerce (JBool b) = Some (if b then 1 else 0)"
| "ToNumber coerce JNull = Some 0"
| "ToNumber coerce JUndefined = None"
| "ToNumber coerce v = coerce v"

text \<open>\<^verbatim>\<open>a > b\<close> on numbers, false as soon as one side is NaN.\<close>

fun js_gt :: "real option \<Rightarrow> real option \<Rightarrow> bool" where
  "js_gt (Some a) (Some b) = (a > b)"
| "js_gt _ _ = False"

section \<open>The runtime: network, clock, script properties\<close>

text \<open>
  A request keeps the parts of the URL and of the options that vary: the credentials posted
  to \<^verbatim>\<open>RR_TOKEN_ENDPOINT\<close>, the query, limit, offset and bearer token of an orders page, the
  subdomain, search term and bearer token of a two-stage search.
\<close>

datatype request =
    TokenRequest jsval jsval jsval jsval
  | OrdersRequest string nat nat jsval
  | TwoStageRequest jsval string jsval

text \<open>
  \<^verbatim>\<open>UrlFetchApp.fetch\<close> either throws or returns a response: its code and its content text,
  the text being represented by what \<^verbatim>\<open>JSON.parse\<close> returns on it (\<open>None\<close> when it throws
  SyntaxError).
\<close>

datatype fetch_result = FetchThrows | Response int "jsval option"

text \<open>
  The environment answers the \<open>n\<close>-th fetch, the \<open>n\<close>-th reading of \<^verbatim>\<open>Date.now()\<close> and the
  \<open>n\<close>-th draw of \<^verbatim>\<open>Math.random()\<close>; \<open>INSTANCES\<close> is a table that the sources read but do
  not declare. Numbers are IEEE doubles: \<^verbatim>\<open>a + b\<close> and \<^verbatim>\<open>a * b\<close> return the exact result
  rounded to a double, and \<open>to_double\<close> is that rounding, the runtime's. A small addend can
  vanish in it: \<open>to_double (a + b) = a\<close> with \<open>b > 0\<close>.
\<close>

record env =
  fetch :: "nat \<Rightarrow> request \<Rightarrow> fetch_result"
  Date_now :: "nat \<Rightarrow> real"
  Math_random :: "nat \<Rightarrow> real"
  coerce :: "jsval \<Rightarrow> real option"
  to_double :: "real \<Rightarrow> real"
  INSTANCES :: "string \<Rightarrow> jsval"

record token_entry =
  token :: jsval
  expires_at :: "real option"

text \<open>
  The mutable state: the script properties (each value as \<^verbatim>\<open>JSON.parse\<close> reads it), the
  lazily loaded \<^verbatim>\<open>instanceManager.instances\<close> (\<open>None\<close> is \<^verbatim>\<open>null\<close>), the global
  \<^verbatim>\<open>ACCESS_TOKEN\<close>, and the trace of what the script did to the outside.
\<close>

record world =
  properties :: "string \<rightharpoonup> jsval option"
  instances :: "(string \<rightharpoonup> jsval) option"
  ACCESS_TOKEN :: "string \<rightharpoonup> token_entry"
  calls :: "request list"
  clock_reads :: nat
  sleeps :: "real list"

definition UrlFetchApp_fetch :: "env \<Rightarrow> request \<Rightarrow> world \<Rightarrow> fetch_result \<times> world" where
  "UrlFetchApp_fetch e rq w = (fetch e (length (calls w)) rq, w\<lparr>calls := calls w @ [rq]\<rparr>)"

definition Date_now_read :: "env \<Rightarrow> world \<Rightarrow> real \<times> world" where
  "Date_now_read e w = (Date_now e (clock_reads w), w\<lparr>clock_reads := Suc (clock_reads w)\<rparr>)"

text \<open>\<^verbatim>\<open>Utilities.sleep(Math.pow(2, attempt) * 1000 + Math.random() * 1000)\<close>\<close>

definition Utilities_sleep :: "env \<Rightarrow> nat \<Rightarrow> world \<Rightarrow> world" where
  "Utilities_sleep e attempt w =
     w\<lparr>sleeps := sleeps w @
        [to_double e (to_double e (2 ^ attempt * 1000)
                      + to_double e (Math_random e (length (sleeps w)) * 1000))]\<rparr>"

section \<open>InstanceManager\<close>

definition getAllConfigs :: "world \<Rightarrow> (string \<rightharpoonup> jsval) \<times> world" where
  "getAllConfigs w =
     (case instances w of
        Some loaded \<Rightarrow> (loaded, w)
      | None \<Rightarrow>
          (let loaded = (\<lambda>instanceName.
                 case properties w instanceName of
                   Some (Some config) \<Rightarrow> Some config
                 | _ \<Rightarrow> None)
           in (loaded, w\<lparr>instances := Some loaded\<rparr>)))"

definition getConfig :: "string \<Rightarrow> world \<Rightarrow> jsval \<times> world" where
  "getConfig instanceName w =
     (case getAllConfigs w of
        (allConfigs, w1) \<Rightarrow>
          (case allConfigs instanceName of
             None \<Rightarrow> (JNull, w1)
           | Some config \<Rightarrow> (config, w1)))"

section \<open>The access-token cache\<close>

text \<open>
  \<^verbatim>\<open>const { USERNAME, PASSWORD, CLIENT_ID, CLIENT_SECRET } = config\<close>: the destructuring
  throws on \<^verbatim>\<open>null\<close>.
\<close>

definition destructure :: "jsval \<Rightarrow> exn + (jsval \<times> jsval \<times> jsval \<times> jsval)" where
  "destructure config =
     (case get config ''USERNAME'' of Inl x \<Rightarrow> Inl x | Inr u \<Rightarrow>
      case get config ''PASSWORD'' of Inl x \<Rightarrow> Inl x | Inr p \<Rightarrow>
      case get config ''CLIENT_ID'' of Inl x \<Rightarrow> Inl x | Inr ci \<Rightarrow>
      case get config ''CLIENT_SECRET'' of Inl x \<Rightarrow> Inl x | Inr cs \<Rightarrow> Inr (u, p, ci, cs))"

text \<open>
  The test of line 128,
  \<^verbatim>\<open>ACCESS_TOKEN[n] && ACCESS_TOKEN[n].token && ACCESS_TOKEN[n].expires_at > Date.now()\<close>:
  the clock is read only when the first two conjuncts hold. The result is the cached token on
  a hit.
\<close>

definition cached_token :: "env \<Rightarrow> string \<Rightarrow> world \<Rightarrow> jsval option \<times> world" where
  "cached_token e instanceName w =
     (case ACCESS_TOKEN w instanceName of
        None \<Rightarrow> (None, w)
      | Some c \<Rightarrow>
          if truthy (token c) then
            (case Date_now_read e w of
               (now, w1) \<Rightarrow>
                 if js_gt (expires_at c) (Some now) then (Some (token c), w1) else (None, w1))
          else (None, w))"

text \<open>
  The body of the \<^verbatim>\<open>try\<close> after a 2xx answer; an exception in it is caught by the handler,
  which returns \<^verbatim>\<open>null\<close>.
\<close>

definition read_token_response :: "jsval option \<Rightarrow> exn + (jsval \<times> jsval)" where
  "read_token_response content =
     (case content of None \<Rightarrow> Inl SyntaxError | Some jsonResponse \<Rightarrow>
      case get jsonResponse ''data'' of Inl x \<Rightarrow> Inl x | Inr d \<Rightarrow>
      case get d ''access_token'' of Inl x \<Rightarrow> Inl x | Inr accessToken \<Rightarrow>
      case get d ''expires_in'' of Inl x \<Rightarrow> Inl x | Inr expiresIn \<Rightarrow> Inr (accessToken, expiresIn))"

definition exchange :: "env \<Rightarrow> string \<Rightarrow> jsval \<times> jsval \<times> jsval \<times> jsval \<Rightarrow> world \<Rightarrow> jsval \<times> world" where
  "exchange e instanceName creds w =
     (case creds of (USERNAME, PASSWORD, CLIENT_ID, CLIENT_SECRET) \<Rightarrow>
      case UrlFetchApp_fetch e (TokenRequest USERNAME PASSWORD CLIENT_ID CLIENT_SECRET) w of
        (FetchThrows, w1) \<Rightarrow> (JNull, w1)
      | (Response responseCode content, w1) \<Rightarrow>
          if 200 \<le> responseCode \<and> responseCode < 300 then
            (case read_token_response content of
               Inl x \<Rightarrow> (JNull, w1)
             | Inr (accessToken, expiresIn) \<Rightarrow>
                 if \<not> truthy accessToken \<or> \<not> truthy expiresIn then (JNull, w1)
                 else
                   (case Date_now_read e w1 of
                      (now, w2) \<Rightarrow>
                        (let expiresAt = map_option (\<lambda>s. to_double e (now + to_double e (s * 1000)))
                                           (ToNumber (coerce e) expiresIn)
                         in (accessToken,
                             w2\<lparr>ACCESS_TOKEN := (ACCESS_TOKEN w2)
                                  (instanceName \<mapsto> \<lparr>token = accessToken, expires_at = expiresAt\<rparr>)\<rparr>))))
          else (JNull, w1))"

definition getAccessTokenForInstance :: "env \<Rightarrow> string \<Rightarrow> world \<Rightarrow> (exn + jsval) \<times> world" where
  "getAccessTokenForInstance e instanceName w =
     (case getConfig instanceName w of
        (config, w1) \<Rightarrow>
          (case destructure config of
             Inl x \<Rightarrow> (Inl x, w1)
           | Inr creds \<Rightarrow>
               (case cached_token e instanceName w1 of
                  (Some t, w2) \<Rightarrow> (Inr t, w2)
                | (None, w2) \<Rightarrow>
                    (case exchange e instanceName creds w2 of (r, w3) \<Rightarrow> (Inr r, w3)))))"

section \<open>Paginated order search\<close>

text \<open>\<^verbatim>\<open>Object.values(Instance)\<close>\<close>

definition Instance_values :: "string list" where
  "Instance_values = [''Amado'', ''Sonot'']"

definition limit :: nat where
  "limit = 50"

text \<open>
  \<^verbatim>\<open>allOrders.concat(v)\<close> appends the elements of an array and any other value as one
  element.
\<close>

fun concat_js :: "jsval list \<Rightarrow> jsval \<Rightarrow> jsval list" where
  "concat_js allOrders (JArr xs) = allOrders @ xs"
| "concat_js allOrders v = allOrders @ [v]"

text \<open>
  The safe check of the total: \<^verbatim>\<open>!total || typeof total !== 'number'\<close> keeps the previous
  value.
\<close>

fun read_total :: "real \<Rightarrow> jsval \<Rightarrow> real" where
  "read_total totalOrders (JNum r) = (if r = 0 then totalOrders else r)"
| "read_total totalOrders v = totalOrders"

text \<open>The test of line 98: \<^verbatim>\<open>!orders || orders.length === 0\<close>.\<close>

definition no_orders :: "jsval \<Rightarrow> bool" where
  "no_orders orders = (\<not> truthy orders \<or> get orders ''length'' = Inr (JNum 0))"

text \<open>
  One pass through the body of the \<^verbatim>\<open>do ... while\<close>, from the state of the loop
  (\<open>offset\<close>, \<open>allOrders\<close>, \<open>totalOrders\<close>): either the function is left (an exception,
  \<^verbatim>\<open>return null\<close>, or a \<^verbatim>\<open>break\<close> that leads to \<^verbatim>\<open>return allOrders\<close>), or the loop goes
  on with a new state. The variable \<^verbatim>\<open>totalCalls\<close> is only logged and is left out.
\<close>

datatype pass = Finished "exn + jsval" | Continue nat "jsval list" real

text \<open>Lines 88 to 119: what a pass does with the parsed response.\<close>

definition handle_page :: "nat \<Rightarrow> jsval list \<Rightarrow> real \<Rightarrow> jsval \<Rightarrow> pass" where
  "handle_page offset allOrders totalOrders jsonResponse =
     (case get jsonResponse ''total'' of
        Inl x \<Rightarrow> Finished (Inl x)
      | Inr reported \<Rightarrow>
          (case get jsonResponse ''orders'' of
             Inl x \<Rightarrow> Finished (Inl x)
           | Inr orders \<Rightarrow>
               (let totalOrders' = read_total totalOrders reported in
                if no_orders orders then Finished (Inr (JArr allOrders))
                else
                  (let allOrders' = concat_js allOrders orders in
                   if real (length allOrders') \<ge> totalOrders' then Finished (Inr (JArr allOrders'))
                   else
                     (let offset' = offset + limit in
                      if real offset' \<ge> totalOrders' then Finished (Inr (JArr allOrders'))
                      else if real (length allOrders') < totalOrders'
                      then Continue offset' allOrders' totalOrders'
                      else Finished (Inr (JArr allOrders')))))))"

definition searchOrders_pass ::
  "env \<Rightarrow> string \<Rightarrow> string \<Rightarrow> nat \<Rightarrow> jsval list \<Rightarrow> real \<Rightarrow> world \<Rightarrow> pass \<times> world" where
  "searchOrders_pass e queryParams instance offset allOrders totalOrders w =
     (case getAccessTokenForInstance e instance w of
        (Inl x, w1) \<Rightarrow> (Finished (Inl x), w1)
      | (Inr accessToken, w1) \<Rightarrow>
          (case UrlFetchApp_fetch e (OrdersRequest queryParams limit offset accessToken) w1 of
             (FetchThrows, w2) \<Rightarrow> (Finished (Inl FetchError), w2)
           | (Response responseCode content, w2) \<Rightarrow>
               if responseCode \<noteq> 200 then (Finished (Inr JNull), w2)
               else
                 (case content of
                    None \<Rightarrow> (Finished (Inl SyntaxError), w2)
                  | Some jsonResponse \<Rightarrow> (handle_page offset allOrders totalOrders jsonResponse, w2))))"

text \<open>
  The loop. The server decides each total, so the loop need not end: \<open>None\<close> is a run that
  never returns.
\<close>

partial_function (option) searchOrders_loop ::
  "env \<Rightarrow> string \<Rightarrow> string \<Rightarrow> nat \<Rightarrow> jsval list \<Rightarrow> real \<Rightarrow> world \<Rightarrow> ((exn + jsval) \<times> world) option" where
  "searchOrders_loop e queryParams instance offset allOrders totalOrders w =
     (case searchOrders_pass e queryParams instance offset allOrders totalOrders w of
        (Finished r, w1) \<Rightarrow> Some (r, w1)
      | (Continue offset' allOrders' totalOrders', w1) \<Rightarrow>
          searchOrders_loop e queryParams instance offset' allOrders' totalOrders' w1)"

declare searchOrders_loop.simps [code]

text \<open>
  \<^verbatim>\<open>instanceConfig = INSTANCES[instance]\<close> is read and never used. The token fetched before
  the loop is shadowed by the one fetched in each pass.
\<close>

definition searchOrders :: "env \<Rightarrow> string \<Rightarrow> string \<Rightarrow> world \<Rightarrow> ((exn + jsval) \<times> world) option" where
  "searchOrders e queryParams instance w =
     (if instance \<notin> set Instance_values then Some (Inr JNull, w)
      else
        (let instanceConfig = INSTANCES e instance in
         case getAccessTokenForInstance e instance w of
           (Inl x, w1) \<Rightarrow> Some (Inl x, w1)
         | (Inr accessToken, w1) \<Rightarrow> searchOrders_loop e queryParams instance 0 [] 0 w1))"

section \<open>Search by container, with retries\<close>

definition instanceManager2_getConfig :: "string \<Rightarrow> jsval" where
  "instanceManager2_getConfig instanceName =
     (case map_of [(''Amado'', JObj [(''subdomain'', JStr ''athn'')]),
                   (''Sonot'', JObj [(''subdomain'', JStr ''tdcs'')])] instanceName of
        None \<Rightarrow> JUndefined
      | Some config \<Rightarrow> config)"

definition maxRetries :: nat where
  "maxRetries = 3"

text \<open>
  What the \<^verbatim>\<open>try\<close> does with a 2xx answer:
  \<^verbatim>\<open>result.data && result.data.total > 0 ? result.data.orders || [] : []\<close>.
\<close>

definition read_search_result :: "env \<Rightarrow> jsval option \<Rightarrow> exn + jsval" where
  "read_search_result e content =
     (case content of None \<Rightarrow> Inl SyntaxError | Some result \<Rightarrow>
      case get result ''data'' of Inl x \<Rightarrow> Inl x | Inr d \<Rightarrow>
        if \<not> truthy d then Inr (JArr [])
        else
          (case get d ''total'' of Inl x \<Rightarrow> Inl x | Inr reported \<Rightarrow>
             if js_gt (ToNumber (coerce e) reported) (Some 0) then
               (case get d ''orders'' of Inl x \<Rightarrow> Inl x | Inr orders \<Rightarrow>
                  Inr (if truthy orders then orders else JArr []))
             else Inr (JArr [])))"

text \<open>The handler of the \<^verbatim>\<open>catch\<close>: it sleeps unless this was the last attempt.\<close>

definition after_exception :: "env \<Rightarrow> nat \<Rightarrow> world \<Rightarrow> world" where
  "after_exception e attempt w = (if attempt < maxRetries then Utilities_sleep e attempt w else w)"

text \<open>The \<^verbatim>\<open>for\<close> loop from \<open>attempt\<close> on, and the \<^verbatim>\<open>return null\<close> that follows it.\<close>

function retry_loop :: "env \<Rightarrow> request \<Rightarrow> nat \<Rightarrow> world \<Rightarrow> jsval \<times> world" where
  "retry_loop e rq attempt w =
     (if attempt \<le> maxRetries then
        (case UrlFetchApp_fetch e rq w of
           (FetchThrows, w1) \<Rightarrow> retry_loop e rq (attempt + 1) (after_exception e attempt w1)
         | (Response responseCode content, w1) \<Rightarrow>
             if 200 \<le> responseCode \<and> responseCode < 300 then
               (case read_search_result e content of
                  Inl x \<Rightarrow> retry_loop e rq (attempt + 1) (after_exception e attempt w1)
                | Inr orders \<Rightarrow> (orders, w1))
             else if responseCode \<ge> 500 \<and> attempt < maxRetries then
               retry_loop e rq (attempt + 1) (Utilities_sleep e attempt w1)
             else (JNull, w1))
      else (JNull, w))"
  by pat_completeness auto
termination
  by (relation "measure (\<lambda>(e, rq, attempt, w). maxRetries + 1 - attempt)") auto

declare retry_loop.simps [simp del]

definition findOrdersByContainerId :: "env \<Rightarrow> string \<Rightarrow> string \<Rightarrow> world \<Rightarrow> (exn + jsval) \<times> world" where
  "findOrdersByContainerId e instanceName containerId w =
     (case getAccessTokenForInstance e instanceName w of
        (Inl x, w1) \<Rightarrow> (Inl x, w1)
      | (Inr accessToken, w1) \<Rightarrow>
          if \<not> truthy accessToken then (Inr JNull, w1)
          else
            (let config = instanceManager2_getConfig instanceName in
             if \<not> truthy config then (Inr JNull, w1)
             else
               (case get config ''subdomain'' of
                  Inl x \<Rightarrow> (Inl x, w1)
                | Inr subdomain \<Rightarrow>
                    if \<not> truthy subdomain then (Inr JNull, w1)
                    else
                      (case retry_loop e (TwoStageRequest subdomain containerId accessToken) 1 w1 of
                         (r, w2) \<Rightarrow> (Inr r, w2)))))"

section \<open>The webhook receiver\<close>

text \<open>
  \<^verbatim>\<open>ContentService.createTextOutput(JSON.stringify(v)).setMimeType(ContentService.MimeType.JSON)\<close>:
  the output keeps the value that is serialised. A text output has no status code; Apps
  Script serves it as it is.
\<close>

datatype mime_type = MimeJSON | MimeTEXT

datatype text_output = TextOutput jsval mime_type

definition json_output :: "(string \<times> jsval) list \<Rightarrow> text_output" where
  "json_output members = TextOutput (JObj members) MimeJSON"

text \<open>
  The body of the outer \<^verbatim>\<open>try\<close>. \<^verbatim>\<open>JSON.parse\<close> is the runtime's and is a parameter: \<open>None\<close>
  when it throws, which the inner handler catches.
\<close>

definition doPost_try :: "(jsval \<Rightarrow> jsval option) \<Rightarrow> jsval \<Rightarrow> exn + text_output" where
  "doPost_try JSON_parse e =
     (if \<not> truthy e then Inr (json_output [(''success'', JBool False), (''error'', JStr ''Missing postData'')])
      else
        case get e ''postData'' of Inl x \<Rightarrow> Inl x | Inr postData \<Rightarrow>
        if \<not> truthy postData
        then Inr (json_output [(''success'', JBool False), (''error'', JStr ''Missing postData'')])
        else
          case get postData ''contents'' of Inl x \<Rightarrow> Inl x | Inr contents \<Rightarrow>
          if \<not> truthy contents
          then Inr (json_output [(''success'', JBool False), (''error'', JStr ''Missing postData'')])
          else
            case JSON_parse contents of
              None \<Rightarrow> Inr (json_output [(''success'', JBool False), (''error'', JStr ''Invalid JSON payload'')])
            | Some payload \<Rightarrow>
                case get payload ''event'' of Inl x \<Rightarrow> Inl x | Inr event \<Rightarrow>
                case get payload ''current_status'' of Inl x \<Rightarrow> Inl x | Inr current_status \<Rightarrow>
                case get payload ''order_id'' of Inl x \<Rightarrow> Inl x | Inr order_id \<Rightarrow>
                if \<not> truthy event \<or> \<not> truthy current_status \<or> \<not> truthy order_id
                then Inr (json_output [(''success'', JBool False), (''error'', JStr ''Missing required fields'')])
                else if event \<noteq> JStr ''order.status_updated''
                then Inr (json_output [(''success'', JBool False), (''error'', JStr ''Incorrect event type''),
                                       (''event'', event)])
                else if current_status \<noteq> JStr ''in-transit''
                then Inr (json_output [(''success'', JBool False), (''error'', JStr ''Incorrect status''),
                                       (''status'', current_status)])
                else Inr (json_output [(''success'', JBool True),
                                       (''data'', JObj [(''current_status'', current_status),
                                                        (''order_id'', order_id)])]))"

definition doPost :: "(jsval \<Rightarrow> jsval option) \<Rightarrow> jsval \<Rightarrow> exn + text_output" where
  "doPost JSON_parse e =
     (case doPost_try JSON_parse e of
        Inl error \<Rightarrow>
          Inr (json_output [(''success'', JBool False), (''error'', JStr ''Internal server error'')])
      | Inr output \<Rightarrow> Inr output)"

section \<open>Notions used in the statements\<close>

text \<open>What \<^verbatim>\<open>instanceManager.getConfig\<close> returns for a name, and whether it is a configuration.\<close>

definition config_of :: "world \<Rightarrow> string \<Rightarrow> jsval" where
  "config_of w instanceName = fst (getConfig instanceName w)"

definition resolves :: "world \<Rightarrow> string \<Rightarrow> bool" where
  "resolves w instanceName = (config_of w instanceName \<noteq> JNull \<and> config_of w instanceName \<noteq> JUndefined)"

text \<open>The cache holds a token for the name whose expiry is beyond the next reading of the clock.\<close>

definition token_fresh :: "env \<Rightarrow> string \<Rightarrow> world \<Rightarrow> bool" where
  "token_fresh e instanceName w =
     (case ACCESS_TOKEN w instanceName of
        None \<Rightarrow> False
      | Some c \<Rightarrow> truthy (token c) \<and> js_gt (expires_at c) (Some (Date_now e (clock_reads w))))"

text \<open>The page requests among the calls made, in order.\<close>

fun is_page :: "request \<Rightarrow> bool" where
  "is_page (OrdersRequest q l off t) = True"
| "is_page rq = False"

definition page_requests :: "request list \<Rightarrow> request list" where
  "page_requests rqs = filter is_page rqs"

section \<open>Sample runs\<close>

definition config_demo :: jsval where
  "config_demo = JObj [(''USERNAME'', JStr ''u''), (''PASSWORD'', JStr ''p''),
                       (''CLIENT_ID'', JStr ''id''), (''CLIENT_SECRET'', JStr ''s'')]"

text \<open>A world in which only Amado is configured and nothing has happened yet.\<close>

definition world_demo :: world where
  "world_demo = \<lparr>properties = [''Amado'' \<mapsto> Some config_demo], instances = None,
     ACCESS_TOKEN = Map.empty, calls = [], clock_reads = 0, sleeps = []\<rparr>"

text \<open>The identity endpoint's answer \<^verbatim>\<open>{data: {access_token: "tok1", expires_in: s}}\<close>.\<close>

definition token_response :: "real \<Rightarrow> fetch_result" where
  "token_response s =
     Response 200 (Some (JObj [(''data'', JObj [(''access_token'', JStr ''tok1''), (''expires_in'', JNum s)])]))"

text \<open>
  An environment with the given server, a clock that stands at 1000 and no jitter. Its
  arithmetic is exact: the sample runs compute with integers that a double holds as they are.
\<close>

definition env_demo :: "(nat \<Rightarrow> request \<Rightarrow> fetch_result) \<Rightarrow> env" where
  "env_demo server = \<lparr>fetch = server, Date_now = (\<lambda>n. 1000), Math_random = (\<lambda>n. 0),
     coerce = (\<lambda>v. None), to_double = (\<lambda>x. x), INSTANCES = (\<lambda>n. JUndefined)\<rparr>"

text \<open>A server that answers every request with the token response for \<open>s\<close> seconds.\<close>

definition token_server :: "real \<Rightarrow> nat \<Rightarrow> request \<Rightarrow> fetch_result" where
  "token_server s n rq = token_response s"

text \<open>The world after a first token request for Amado, answered with one hour of lifetime.\<close>

definition world_cached :: world where
  "world_cached = snd (getAccessTokenForInstance (env_demo (token_server 3600)) ''Amado'' world_demo)"

text \<open>
  A server with a list of records: it answers a token request with one hour of lifetime, a
  page request with the slice of the records at the offset, followed by the given further
  members (a total, or none), and any other request with 503.
\<close>

definition shop_server :: "jsval list \<Rightarrow> (string \<times> jsval) list \<Rightarrow> nat \<Rightarrow> request \<Rightarrow> fetch_result" where
  "shop_server records members n rq =
     (case rq of
        TokenRequest u p ci cs \<Rightarrow> token_response 3600
      | OrdersRequest q l off t \<Rightarrow>
          Response 200 (Some (JObj ((''orders'', JArr (take l (drop off records))) # members)))
      | TwoStageRequest sd term t \<Rightarrow> Response 503 None)"

definition records_demo :: "jsval list" where
  "records_demo = map (\<lambda>k. JNum (real k)) [0..<120]"

text \<open>A server that hands out tokens and answers every other request with the given code.\<close>

definition failing_server :: "int \<Rightarrow> nat \<Rightarrow> request \<Rightarrow> fetch_result" where
  "failing_server code n rq =
     (case rq of
        TokenRequest u p ci cs \<Rightarrow> token_response 3600
      | OrdersRequest q l off t \<Rightarrow> Response code None
      | TwoStageRequest sd term t \<Rightarrow> Response code None)"

text \<open>The first mock event of \<^verbatim>\<open>testWebhook\<close>, and a parser that knows its text only.\<close>

definition contents_demo :: string where
  \<open>contents_demo = ''{"event":"order.status_updated","previous_status":"dispatched","current_status":"in-transit","order_id":"test_order_id_123"}''\<close>

definition payload_demo :: jsval where
  "payload_demo = JObj [(''event'', JStr ''order.status_updated''), (''previous_status'', JStr ''dispatched''),
                        (''current_status'', JStr ''in-transit''), (''order_id'', JStr ''test_order_id_123'')]"

definition parse_demo :: "jsval \<Rightarrow> jsval option" where
  "parse_demo v = (if v = JStr contents_demo then Some payload_demo else None)"

definition event_demo :: jsval where
  "event_demo = JObj [(''postData'', JObj [(''contents'', JStr contents_demo)])]"

section \<open>Facts about the configuration lookup and the token cache\<close>

lemma getConfig_frame:
  "ACCESS_TOKEN (snd (getConfig n w)) = ACCESS_TOKEN w"
  "calls (snd (getConfig n w)) = calls w"
  "clock_reads (snd (getConfig n w)) = clock_reads w"
  "sleeps (snd (getConfig n w)) = sleeps w"
  "properties (snd (getConfig n w)) = properties w"
  by (simp_all add: getConfig_def getAllConfigs_def Let_def split: option.splits prod.splits)

lemma config_of_getConfig: "config_of (snd (getConfig n w)) m = config_of w m"
  by (simp add: config_of_def getConfig_def getAllConfigs_def Let_def split: option.splits prod.splits)

lemma config_of_frame:
  "properties w' = properties w \<Longrightarrow> instances w' = instances w \<Longrightarrow> config_of w' m = config_of w m"
  by (simp add: config_of_def getConfig_def getAllConfigs_def Let_def split: option.splits prod.splits)

lemma destructure_Inl: "destructure v = Inl x \<longleftrightarrow> (v = JNull \<or> v = JUndefined) \<and> x = TypeError"
  by (cases v) (auto simp: destructure_def)

lemma destructure_resolves: "resolves w n \<longleftrightarrow> (\<exists>creds. destructure (config_of w n) = Inr creds)"
  unfolding resolves_def using destructure_Inl[of "config_of w n"]
  by (metis Inl_Inr_False sum.exhaust_sel sumE)

lemma cached_token_fst:
  "fst (cached_token e n w) = (if token_fresh e n w then map_option token (ACCESS_TOKEN w n) else None)"
  by (simp add: cached_token_def token_fresh_def Date_now_read_def split: option.splits)

lemma cached_token_frame:
  "ACCESS_TOKEN (snd (cached_token e n w)) = ACCESS_TOKEN w"
  "calls (snd (cached_token e n w)) = calls w"
  "sleeps (snd (cached_token e n w)) = sleeps w"
  "properties (snd (cached_token e n w)) = properties w"
  "instances (snd (cached_token e n w)) = instances w"
  by (simp_all add: cached_token_def Date_now_read_def split: option.splits)

lemma exchange_frame:
  "calls (snd (exchange e n (u, p, ci, cs) w)) = calls w @ [TokenRequest u p ci cs]"
  "sleeps (snd (exchange e n creds w)) = sleeps w"
  "properties (snd (exchange e n creds w)) = properties w"
  "instances (snd (exchange e n creds w)) = instances w"
  by (simp_all add: exchange_def UrlFetchApp_fetch_def Date_now_read_def Let_def
      split: prod.splits fetch_result.splits sum.splits)


lemma token_fresh_frame:
  "ACCESS_TOKEN w' = ACCESS_TOKEN w \<Longrightarrow> clock_reads w' = clock_reads w
     \<Longrightarrow> token_fresh e n w' = token_fresh e n w"
  by (simp add: token_fresh_def split: option.splits)

lemma token_call_hit:
  assumes "resolves w n" "token_fresh e n w"
  shows "fst (getAccessTokenForInstance e n w) = Inr (token (the (ACCESS_TOKEN w n)))"
    and "calls (snd (getAccessTokenForInstance e n w)) = calls w"
    and "ACCESS_TOKEN (snd (getAccessTokenForInstance e n w)) = ACCESS_TOKEN w"
proof -
  obtain config w1 where g: "getConfig n w = (config, w1)" by (cases "getConfig n w")
  from assms(1) obtain creds where d: "destructure config = Inr creds"
    using g by (auto simp: destructure_resolves config_of_def)
  have w1: "ACCESS_TOKEN w1 = ACCESS_TOKEN w" "calls w1 = calls w" "clock_reads w1 = clock_reads w"
    using getConfig_frame[of n w] g by simp_all
  have fresh: "token_fresh e n w1" using assms(2) w1 token_fresh_frame by blast
  obtain c where c: "ACCESS_TOKEN w n = Some c" using assms(2) by (auto simp: token_fresh_def split: option.splits)
  obtain r w2 where ct: "cached_token e n w1 = (r, w2)" by (cases "cached_token e n w1")
  have r: "r = Some (token c)" using cached_token_fst[of e n w1] ct fresh w1 c by simp
  have w2: "calls w2 = calls w1" "ACCESS_TOKEN w2 = ACCESS_TOKEN w1"
    using cached_token_frame[of e n w1] ct by simp_all
  have "getAccessTokenForInstance e n w = (Inr (token c), w2)"
    by (simp add: getAccessTokenForInstance_def g d ct r)
  then show "fst (getAccessTokenForInstance e n w) = Inr (token (the (ACCESS_TOKEN w n)))"
    and "calls (snd (getAccessTokenForInstance e n w)) = calls w"
    and "ACCESS_TOKEN (snd (getAccessTokenForInstance e n w)) = ACCESS_TOKEN w"
    using c w1 w2 by simp_all
qed

lemma token_call_miss:
  assumes "destructure (config_of w n) = Inr (u, p, ci, cs)" "\<not> token_fresh e n w"
  shows "calls (snd (getAccessTokenForInstance e n w)) = calls w @ [TokenRequest u p ci cs]"
proof -
  obtain config w1 where g: "getConfig n w = (config, w1)" by (cases "getConfig n w")
  have d: "destructure config = Inr (u, p, ci, cs)" using assms(1) g by (simp add: config_of_def)
  have w1: "ACCESS_TOKEN w1 = ACCESS_TOKEN w" "calls w1 = calls w" "clock_reads w1 = clock_reads w"
    using getConfig_frame[of n w] g by simp_all
  have fresh: "\<not> token_fresh e n w1" using assms(2) w1 token_fresh_frame by blast
  obtain r w2 where ct: "cached_token e n w1 = (r, w2)" by (cases "cached_token e n w1")
  have r: "r = None" using cached_token_fst[of e n w1] ct fresh by simp
  have w2: "calls w2 = calls w1" using cached_token_frame[of e n w1] ct by simp
  obtain t w3 where ex: "exchange e n (u, p, ci, cs) w2 = (t, w3)" by (cases "exchange e n (u, p, ci, cs) w2")
  have w3: "calls w3 = calls w2 @ [TokenRequest u p ci cs]" using exchange_frame(1)[of e n u p ci cs w2] ex by simp
  have "getAccessTokenForInstance e n w = (Inr t, w3)"
    by (simp add: getAccessTokenForInstance_def g d ct r ex)
  then show ?thesis using w1 w2 w3 by simp
qed


lemma exchange_token:
  assumes "exchange e n creds w = (t, w')" "truthy t"
  shows "map_option token (ACCESS_TOKEN w' n) = Some t"
proof -
  obtain u p ci cs where creds: "creds = (u, p, ci, cs)" by (cases creds)
  obtain r w1 where f: "UrlFetchApp_fetch e (TokenRequest u p ci cs) w = (r, w1)"
    by (cases "UrlFetchApp_fetch e (TokenRequest u p ci cs) w")
  show ?thesis
  proof (cases r)
    case FetchThrows
    then show ?thesis using assms by (simp add: exchange_def creds f)
  next
    case (Response code content)
    show ?thesis
    proof (cases "read_token_response content")
      case (Inl x)
      then show ?thesis using assms by (simp add: exchange_def creds f Response split: if_splits)
    next
      case (Inr ae)
      obtain a x where ae: "ae = (a, x)" by (cases ae)
      obtain now w2 where d: "Date_now_read e w1 = (now, w2)" by (cases "Date_now_read e w1")
      show ?thesis using assms
        by (auto simp: exchange_def creds f Response Inr ae d Let_def split: if_splits)
    qed
  qed
qed


lemma token_call_returns_cached:
  assumes "getAccessTokenForInstance e n w = (Inr t, w')" "truthy t"
  shows "map_option token (ACCESS_TOKEN w' n) = Some t"
proof -
  obtain config w1 where g: "getConfig n w = (config, w1)" by (cases "getConfig n w")
  obtain creds where d: "destructure config = Inr creds"
    using assms(1) by (cases "destructure config") (simp_all add: getAccessTokenForInstance_def g)
  obtain r w2 where ct: "cached_token e n w1 = (r, w2)" by (cases "cached_token e n w1")
  show ?thesis
  proof (cases r)
    case None
    obtain t' w3 where ex: "exchange e n creds w2 = (t', w3)" by (cases "exchange e n creds w2")
    have "t' = t" "w3 = w'" using assms(1) by (simp_all add: getAccessTokenForInstance_def g d ct None ex)
    then show ?thesis using exchange_token[OF ex] assms(2) by simp
  next
    case (Some t')
    then have eq: "t' = t" "w' = w2" using assms(1) by (simp_all add: getAccessTokenForInstance_def g d ct)
    have "fst (cached_token e n w1) = Some t'" using ct Some by simp
    then have "map_option token (ACCESS_TOKEN w1 n) = Some t'"
      using cached_token_fst[of e n w1] by (simp split: if_splits)
    moreover have "ACCESS_TOKEN w2 = ACCESS_TOKEN w1" using cached_token_frame(1)[of e n w1] ct by simp
    ultimately show ?thesis using eq by simp
  qed
qed

lemma token_call_config:
  assumes "getAccessTokenForInstance e n w = (r, w')"
  shows "config_of w' m = config_of w m"
proof -
  obtain config w1 where g: "getConfig n w = (config, w1)" by (cases "getConfig n w")
  have c1: "config_of w1 m = config_of w m" using config_of_getConfig[of n w m] g by simp
  show ?thesis
  proof (cases "destructure config")
    case (Inl x)
    then have "w' = w1" using assms by (simp add: getAccessTokenForInstance_def g)
    then show ?thesis using c1 by simp
  next
    case (Inr creds)
    obtain ct w2 where ct: "cached_token e n w1 = (ct, w2)" by (cases "cached_token e n w1")
    have w2: "properties w2 = properties w1" "instances w2 = instances w1"
      using cached_token_frame(4,5)[of e n w1] ct by simp_all
    show ?thesis
    proof (cases ct)
      case None
      obtain t w3 where ex: "exchange e n creds w2 = (t, w3)" by (cases "exchange e n creds w2")
      have "w' = w3" using assms by (simp add: getAccessTokenForInstance_def g Inr ct None ex)
      moreover have "properties w3 = properties w2" "instances w3 = instances w2"
        using exchange_frame(3,4)[of e n creds w2] ex by simp_all
      ultimately show ?thesis using w2 c1 config_of_frame[of w' w1 m] by simp
    next
      case (Some t)
      then have "w' = w2" using assms by (simp add: getAccessTokenForInstance_def g Inr ct)
      then show ?thesis using w2 c1 config_of_frame[of w' w1 m] by simp
    qed
  qed
qed





lemma token_call_unresolved:
  assumes "\<not> resolves w n"
  shows "fst (getAccessTokenForInstance e n w) = Inl TypeError"
    and "calls (snd (getAccessTokenForInstance e n w)) = calls w"
proof -
  obtain config w1 where g: "getConfig n w = (config, w1)" by (cases "getConfig n w")
  have "config = JNull \<or> config = JUndefined"
    using assms g by (auto simp: resolves_def config_of_def)
  then have d: "destructure config = Inl TypeError" by (auto simp: destructure_def)
  have w1: "calls w1 = calls w" using getConfig_frame(2)[of n w] g by simp
  have "getAccessTokenForInstance e n w = (Inl TypeError, w1)"
    by (simp add: getAccessTokenForInstance_def g d)
  then show "fst (getAccessTokenForInstance e n w) = Inl TypeError"
    and "calls (snd (getAccessTokenForInstance e n w)) = calls w" using w1 by simp_all
qed

text \<open>
  The cache never comes to hold a falsy token: a call keeps the entries it finds and stores
  only a token that passed \<^verbatim>\<open>!accessToken\<close>.
\<close>

lemma exchange_cache:
  assumes "exchange e n creds w = (t, w')"
  shows "ACCESS_TOKEN w' = ACCESS_TOKEN w
       \<or> (truthy t \<and> (\<exists>x. ACCESS_TOKEN w' = (ACCESS_TOKEN w)(n \<mapsto> \<lparr>token = t, expires_at = x\<rparr>)))"
proof -
  obtain u p ci cs where creds: "creds = (u, p, ci, cs)" by (cases creds)
  show ?thesis
  proof (cases "fetch e (length (calls w)) (TokenRequest u p ci cs)")
    case FetchThrows
    then show ?thesis using assms by (auto simp: exchange_def creds UrlFetchApp_fetch_def)
  next
    case (Response code content)
    show ?thesis
    proof (cases "read_token_response content")
      case (Inl x)
      then show ?thesis using assms Response
        by (auto simp: exchange_def creds UrlFetchApp_fetch_def split: if_splits)
    next
      case (Inr ax)
      obtain a x where ax: "ax = (a, x)" by (cases ax)
      show ?thesis using assms Response Inr ax
        by (auto simp: exchange_def creds UrlFetchApp_fetch_def Date_now_read_def Let_def split: if_splits)
    qed
  qed
qed

lemma cache_keeps_truthy_tokens:
  assumes "\<forall>m c. ACCESS_TOKEN w m = Some c \<longrightarrow> truthy (token c)"
    and "getAccessTokenForInstance e n w = (r, w')"
  shows "\<forall>m c. ACCESS_TOKEN w' m = Some c \<longrightarrow> truthy (token c)"
proof -
  obtain config w1 where g: "getConfig n w = (config, w1)" by (cases "getConfig n w")
  have w1: "ACCESS_TOKEN w1 = ACCESS_TOKEN w" using getConfig_frame(1)[of n w] g by simp
  show ?thesis
  proof (cases "destructure config")
    case (Inl x)
    then have "w' = w1" using assms(2) by (simp add: getAccessTokenForInstance_def g)
    then show ?thesis using assms(1) w1 by simp
  next
    case (Inr creds)
    obtain ct w2 where ct: "cached_token e n w1 = (ct, w2)" by (cases "cached_token e n w1")
    have w2: "ACCESS_TOKEN w2 = ACCESS_TOKEN w" using cached_token_frame(1)[of e n w1] ct w1 by simp
    show ?thesis
    proof (cases ct)
      case (Some t)
      then have "w' = w2" using assms(2) by (simp add: getAccessTokenForInstance_def g Inr ct)
      then show ?thesis using assms(1) w2 by simp
    next
      case None
      obtain t w3 where ex: "exchange e n creds w2 = (t, w3)" by (cases "exchange e n creds w2")
      have "w' = w3" using assms(2) by (simp add: getAccessTokenForInstance_def g Inr ct None ex)
      then show ?thesis using exchange_cache[OF ex] assms(1) w2 by (auto split: if_splits)
    qed
  qed
qed

section \<open>Facts about a pass of the search loop\<close>

lemma page_requests_append [simp]:
  "page_requests (xs @ ys) = page_requests xs @ page_requests ys"
  by (simp add: page_requests_def)

lemma page_requests_single [simp]:
  "page_requests [TokenRequest u p ci cs] = []"
  "page_requests [OrdersRequest q l off t] = [OrdersRequest q l off t]"
  "page_requests [TwoStageRequest sd term t] = []"
  by (simp_all add: page_requests_def)

lemma resolves_frame:
  "properties w' = properties w \<Longrightarrow> instances w' = instances w \<Longrightarrow> resolves w' n = resolves w n"
  using config_of_frame[of w' w n] by (simp add: resolves_def)

lemma token_call_resolved:
  assumes "resolves w n"
  shows "\<exists>t w'. getAccessTokenForInstance e n w = (Inr t, w') \<and> resolves w' n
           \<and> page_requests (calls w') = page_requests (calls w)"
proof -
  obtain u p ci cs where d: "destructure (config_of w n) = Inr (u, p, ci, cs)"
    using assms by (auto simp: destructure_resolves)
  obtain r w' where c: "getAccessTokenForInstance e n w = (r, w')"
    by (cases "getAccessTokenForInstance e n w")
  have "config_of w' n = config_of w n" using token_call_config[OF c] .
  then have res: "resolves w' n" using assms by (simp add: resolves_def)
  have "calls w' = calls w \<or> calls w' = calls w @ [TokenRequest u p ci cs]"
    using token_call_hit(2)[OF assms, of e] token_call_miss[OF d, of e] c by (cases "token_fresh e n w") simp_all
  then have pg: "page_requests (calls w') = page_requests (calls w)" by auto
  obtain config w1 where g: "getConfig n w = (config, w1)" by (cases "getConfig n w")
  have d': "destructure config = Inr (u, p, ci, cs)" using d g by (simp add: config_of_def)
  obtain ct w2 where ct: "cached_token e n w1 = (ct, w2)" by (cases "cached_token e n w1")
  obtain x w3 where ex: "exchange e n (u, p, ci, cs) w2 = (x, w3)" by (cases "exchange e n (u, p, ci, cs) w2")
  have "\<exists>t. r = Inr t"
    using c by (cases ct) (auto simp: getAccessTokenForInstance_def g d' ct ex)
  then show ?thesis using c res pg by auto
qed

lemma pass_page:
  assumes "getAccessTokenForInstance e i w = (Inr tok, w1)"
    and "fetch e (length (calls w1)) (OrdersRequest q limit off tok) = Response 200 (Some j)"
  shows "searchOrders_pass e q i off acc tot w
           = (handle_page off acc tot j, w1\<lparr>calls := calls w1 @ [OrdersRequest q limit off tok]\<rparr>)"
  by (simp add: searchOrders_pass_def assms UrlFetchApp_fetch_def)

lemma pass_served:
  assumes "resolves w i"
    and "\<forall>n tok. \<exists>j. fetch e n (OrdersRequest q limit off tok) = Response 200 (Some j) \<and> P j"
  shows "\<exists>tok w1 j. searchOrders_pass e q i off acc tot w = (handle_page off acc tot j, w1) \<and> P j
           \<and> resolves w1 i
           \<and> page_requests (calls w1) = page_requests (calls w) @ [OrdersRequest q limit off tok]"
proof -
  obtain tok w1 where t: "getAccessTokenForInstance e i w = (Inr tok, w1)" "resolves w1 i"
      "page_requests (calls w1) = page_requests (calls w)"
    using token_call_resolved[OF assms(1), of e] by auto
  obtain j where j: "fetch e (length (calls w1)) (OrdersRequest q limit off tok) = Response 200 (Some j)" "P j"
    using assms(2) by blast
  let ?w2 = "w1\<lparr>calls := calls w1 @ [OrdersRequest q limit off tok]\<rparr>"
  have "resolves ?w2 i" using t(2) resolves_frame[of ?w2 w1 i] by simp
  moreover have "page_requests (calls ?w2) = page_requests (calls w) @ [OrdersRequest q limit off tok]"
    using t(3) by simp
  ultimately show ?thesis using pass_page[OF t(1) j(1)] j(2) by blast
qed

lemma get_total_defined: "get j k = Inr v \<Longrightarrow> \<exists>v'. get j k' = Inr v'"
  by (cases j) simp_all

lemma no_orders_simps [simp]:
  "no_orders JUndefined" "no_orders (JArr xs) \<longleftrightarrow> xs = []"
  by (simp_all add: no_orders_def)

lemma handle_page_empty:
  assumes "get j ''orders'' = Inr ords" "no_orders ords"
  shows "handle_page off acc tot j = Finished (Inr (JArr acc))"
proof -
  obtain rep where "get j ''total'' = Inr rep" using get_total_defined[OF assms(1)] by blast
  then show ?thesis using assms by (simp add: handle_page_def)
qed

lemma handle_page_records:
  assumes "get j ''total'' = Inr rep" "get j ''orders'' = Inr ords" "\<not> no_orders ords"
  shows "handle_page off acc tot j =
           (if real (length (concat_js acc ords)) \<ge> read_total tot rep \<or> real (off + limit) \<ge> read_total tot rep
            then Finished (Inr (JArr (concat_js acc ords)))
            else Continue (off + limit) (concat_js acc ords) (read_total tot rep))"
  using assms by (auto simp: handle_page_def Let_def)

lemma handle_page_Continue:
  assumes "handle_page off acc tot j = Continue off' acc' tot'"
  shows "\<exists>rep ords. get j ''total'' = Inr rep \<and> tot' = read_total tot rep
           \<and> get j ''orders'' = Inr ords \<and> acc' = concat_js acc ords
           \<and> off' = off + limit \<and> real (length acc') < tot' \<and> real off' < tot'"
  using assms by (auto simp: handle_page_def Let_def split: sum.splits if_splits)

lemma pass_Continue:
  assumes "searchOrders_pass e q i off acc tot w = (Continue off' acc' tot', w')"
  shows "\<exists>j. handle_page off acc tot j = Continue off' acc' tot'"
proof -
  obtain r w1 where t: "getAccessTokenForInstance e i w = (r, w1)"
    by (cases "getAccessTokenForInstance e i w")
  show ?thesis
  proof (cases r)
    case (Inl x)
    then show ?thesis using assms by (simp add: searchOrders_pass_def t)
  next
    case (Inr tok)
    obtain fr w2 where f: "UrlFetchApp_fetch e (OrdersRequest q limit off tok) w1 = (fr, w2)"
      by (cases "UrlFetchApp_fetch e (OrdersRequest q limit off tok) w1")
    show ?thesis
    proof (cases fr)
      case FetchThrows
      then show ?thesis using assms by (simp add: searchOrders_pass_def t Inr f)
    next
      case (Response code content)
      then show ?thesis using assms
        by (cases content) (auto simp: searchOrders_pass_def t Inr f split: if_splits)
    qed
  qed
qed


section \<open>Facts about the retry loop\<close>

lemma sleep_calls [simp]:
  "calls (Utilities_sleep e a w) = calls w" "calls (after_exception e a w) = calls w"
  by (simp_all add: Utilities_sleep_def after_exception_def)

lemma fetch_step:
  "UrlFetchApp_fetch e rq w = (fetch e (length (calls w)) rq, w\<lparr>calls := calls w @ [rq]\<rparr>)"
  by (simp add: UrlFetchApp_fetch_def)

lemma retry_loop_past: "\<not> attempt \<le> maxRetries \<Longrightarrow> retry_loop e rq attempt w = (JNull, w)"
  by (subst retry_loop.simps) simp

lemma retry_loop_final:
  assumes "attempt \<le> maxRetries" and "fetch e (length (calls w)) rq = Response code c"
    and "\<not> (200 \<le> code \<and> code < 300)" and "\<not> (code \<ge> 500 \<and> attempt < maxRetries)"
  shows "retry_loop e rq attempt w = (JNull, w\<lparr>calls := calls w @ [rq]\<rparr>)"
  using assms by (subst retry_loop.simps) (auto simp add: fetch_step)

lemma retry_loop_again:
  assumes "attempt \<le> maxRetries" and "fetch e (length (calls w)) rq = Response code c"
    and "\<not> (200 \<le> code \<and> code < 300)" and "code \<ge> 500" and "attempt < maxRetries"
  shows "retry_loop e rq attempt w
           = retry_loop e rq (attempt + 1) (Utilities_sleep e attempt (w\<lparr>calls := calls w @ [rq]\<rparr>))"
  using assms by (subst retry_loop.simps) (auto simp add: fetch_step)

lemma retry_loop_bound:
  "\<exists>k. k \<le> maxRetries + 1 - attempt \<and> calls (snd (retry_loop e rq attempt w)) = calls w @ replicate k rq"
proof (induction e rq attempt w rule: retry_loop.induct)
  case (1 e rq attempt w)
  let ?w1 = "w\<lparr>calls := calls w @ [rq]\<rparr>"
  show ?case
  proof (cases "attempt \<le> maxRetries")
    case False
    then have "calls (snd (retry_loop e rq attempt w)) = calls w @ replicate 0 rq"
      by (simp add: retry_loop_past)
    then show ?thesis by blast
  next
    case True
    have step: "\<exists>k. k \<le> maxRetries + 1 - attempt \<and> calls (snd (retry_loop e rq (attempt + 1) w')) = calls w @ replicate k rq"
      if ih: "\<exists>k. k \<le> maxRetries + 1 - (attempt + 1) \<and> calls (snd (retry_loop e rq (attempt + 1) w')) = calls w' @ replicate k rq"
        and w': "calls w' = calls w @ [rq]" for w'
    proof -
      from ih obtain k where k: "k \<le> maxRetries + 1 - (attempt + 1)"
        "calls (snd (retry_loop e rq (attempt + 1) w')) = calls w' @ replicate k rq" by blast
      have "calls (snd (retry_loop e rq (attempt + 1) w')) = calls w @ replicate (Suc k) rq"
        using k(2) w' by simp
      moreover have "Suc k \<le> maxRetries + 1 - attempt" using k(1) True by simp
      ultimately show ?thesis by blast
    qed
    have one: "\<exists>k. k \<le> maxRetries + 1 - attempt \<and> calls ?w1 = calls w @ replicate k rq"
    proof -
      have "calls ?w1 = calls w @ replicate 1 rq" by simp
      moreover have "1 \<le> maxRetries + 1 - attempt" using True by simp
      ultimately show ?thesis by blast
    qed
    show ?thesis
    proof (cases "fetch e (length (calls w)) rq")
      case FetchThrows
      have "retry_loop e rq attempt w = retry_loop e rq (attempt + 1) (after_exception e attempt ?w1)"
        using True FetchThrows by (subst retry_loop.simps) (simp add: fetch_step)
      moreover have "\<exists>k. k \<le> maxRetries + 1 - (attempt + 1)
          \<and> calls (snd (retry_loop e rq (attempt + 1) (after_exception e attempt ?w1)))
            = calls (after_exception e attempt ?w1) @ replicate k rq"
        using "1.IH"(1)[OF True fetch_step[symmetric] FetchThrows] .
      ultimately show ?thesis using step[of "after_exception e attempt ?w1"] by simp
    next
      case (Response code content)
      show ?thesis
      proof (cases "200 \<le> code \<and> code < 300")
        case ok: True
        show ?thesis
        proof (cases "read_search_result e content")
          case (Inl x)
          have "retry_loop e rq attempt w = retry_loop e rq (attempt + 1) (after_exception e attempt ?w1)"
            using True Response ok Inl by (subst retry_loop.simps) (simp add: fetch_step)
          moreover have "\<exists>k. k \<le> maxRetries + 1 - (attempt + 1)
              \<and> calls (snd (retry_loop e rq (attempt + 1) (after_exception e attempt ?w1)))
                = calls (after_exception e attempt ?w1) @ replicate k rq"
            using "1.IH"(2)[OF True fetch_step[symmetric] Response ok Inl] .
          ultimately show ?thesis using step[of "after_exception e attempt ?w1"] by simp
        next
          case (Inr orders)
          have "retry_loop e rq attempt w = (orders, ?w1)"
            using True Response ok Inr by (subst retry_loop.simps) (simp add: fetch_step)
          then show ?thesis using one by simp
        qed
      next
        case nok: False
        show ?thesis
        proof (cases "code \<ge> 500 \<and> attempt < maxRetries")
          case again: True
          have "retry_loop e rq attempt w = retry_loop e rq (attempt + 1) (Utilities_sleep e attempt ?w1)"
            using retry_loop_again[OF True Response nok] again by simp
          moreover have "\<exists>k. k \<le> maxRetries + 1 - (attempt + 1)
              \<and> calls (snd (retry_loop e rq (attempt + 1) (Utilities_sleep e attempt ?w1)))
                = calls (Utilities_sleep e attempt ?w1) @ replicate k rq"
            using "1.IH"(3)[OF True fetch_step[symmetric] Response nok again] .
          ultimately show ?thesis using step[of "Utilities_sleep e attempt ?w1"] by simp
        next
          case False
          have "retry_loop e rq attempt w = (JNull, ?w1)"
            using retry_loop_final[OF True Response nok False] .
          then show ?thesis using one by simp
        qed
      qed
    qed
  qed
qed

lemma retry_loop_all_5xx:
  assumes "\<forall>n. \<exists>code c. fetch e n rq = Response code c \<and> code \<ge> 500"
  shows "fst (retry_loop e rq attempt w) = JNull
       \<and> calls (snd (retry_loop e rq attempt w)) = calls w @ replicate (maxRetries + 1 - attempt) rq"
  using assms
proof (induction e rq attempt w rule: retry_loop.induct)
  case (1 e rq attempt w)
  let ?w1 = "w\<lparr>calls := calls w @ [rq]\<rparr>"
  show ?case
  proof (cases "attempt \<le> maxRetries")
    case False
    then show ?thesis by (simp add: retry_loop_past)
  next
    case True
    obtain code c where r: "fetch e (length (calls w)) rq = Response code c" "code \<ge> 500"
      using "1.prems" by blast
    have nok: "\<not> (200 \<le> code \<and> code < 300)" using r(2) by simp
    show ?thesis
    proof (cases "attempt < maxRetries")
      case again: True
      have ag: "500 \<le> code \<and> attempt < maxRetries" using r(2) again by simp
      have eq: "retry_loop e rq attempt w = retry_loop e rq (attempt + 1) (Utilities_sleep e attempt ?w1)"
        using retry_loop_again[OF True r(1) nok r(2) again] .
      have ih: "fst (retry_loop e rq (attempt + 1) (Utilities_sleep e attempt ?w1)) = JNull
         \<and> calls (snd (retry_loop e rq (attempt + 1) (Utilities_sleep e attempt ?w1)))
            = calls (Utilities_sleep e attempt ?w1) @ replicate (maxRetries + 1 - (attempt + 1)) rq"
        using "1.IH"(3)[OF True fetch_step[symmetric] r(1) nok ag "1.prems"] .
      have "[rq] @ replicate (maxRetries + 1 - (attempt + 1)) rq = replicate (maxRetries + 1 - attempt) rq"
        using again by (cases "maxRetries + 1 - attempt") simp_all
      then show ?thesis using eq ih by simp
    next
      case False
      then have last: "attempt = maxRetries" using True by simp
      have "retry_loop e rq attempt w = (JNull, ?w1)"
        using retry_loop_final[OF True r(1) nok] False by simp
      then show ?thesis using last by simp
    qed
  qed
qed

lemma find_orders_unfold:
  assumes "getAccessTokenForInstance e i w = (Inr tok, w1)" and "truthy tok"
    and "get (instanceManager2_getConfig i) ''subdomain'' = Inr sd" and "truthy sd"
  shows "findOrdersByContainerId e i cid w
           = (Inr (fst (retry_loop e (TwoStageRequest sd cid tok) 1 w1)),
              snd (retry_loop e (TwoStageRequest sd cid tok) 1 w1))"
proof -
  have "truthy (instanceManager2_getConfig i)"
    using assms(3,4) by (cases "instanceManager2_getConfig i") auto
  then show ?thesis
    using assms by (simp add: findOrdersByContainerId_def Let_def split: prod.splits)
qed

section \<open>Evaluating the sample runs\<close>

lemmas demo_defs = getAccessTokenForInstance_def getConfig_def getAllConfigs_def Let_def destructure_def
  cached_token_def exchange_def UrlFetchApp_fetch_def Date_now_read_def read_token_response_def
  world_demo_def config_demo_def env_demo_def token_response_def token_server_def

lemma config_of_world_demo:
  "config_of world_demo n = (if n = ''Amado'' then config_demo else JNull)"
  by (simp add: config_of_def getConfig_def getAllConfigs_def world_demo_def Let_def)

lemma first_call_demo:
  "fst (getAccessTokenForInstance (env_demo (token_server s)) ''Amado'' world_demo) = Inr (JStr ''tok1'')"
  "calls (snd (getAccessTokenForInstance (env_demo (token_server s)) ''Amado'' world_demo))
     = [TokenRequest (JStr ''u'') (JStr ''p'') (JStr ''id'') (JStr ''s'')]"
  "ACCESS_TOKEN (snd (getAccessTokenForInstance (env_demo (token_server s)) ''Amado'' world_demo)) ''Amado''
     = Some \<lparr>token = JStr ''tok1'', expires_at = Some (1000 + s * 1000)\<rparr>"
  "clock_reads (snd (getAccessTokenForInstance (env_demo (token_server s)) ''Amado'' world_demo)) = 1"
  if "s \<noteq> 0"
  using that by (simp_all add: demo_defs)

lemma first_call_served:
  assumes "srv 0 (TokenRequest (JStr ''u'') (JStr ''p'') (JStr ''id'') (JStr ''s'')) = token_response 3600"
  shows "getAccessTokenForInstance (env_demo srv) ''Amado'' world_demo
           = (Inr (JStr ''tok1''), snd (getAccessTokenForInstance (env_demo srv) ''Amado'' world_demo))"
    and "calls (snd (getAccessTokenForInstance (env_demo srv) ''Amado'' world_demo))
           = [TokenRequest (JStr ''u'') (JStr ''p'') (JStr ''id'') (JStr ''s'')]"
  using assms
  by (simp_all add: prod_eq_iff getAccessTokenForInstance_def getConfig_def getAllConfigs_def Let_def
      destructure_def cached_token_def exchange_def UrlFetchApp_fetch_def Date_now_read_def
      read_token_response_def world_demo_def config_demo_def env_demo_def token_response_def)

lemma resolves_world_demo: "resolves world_demo ''Amado''"
  by (simp add: resolves_def config_of_world_demo config_demo_def)

section \<open>The token cache: claims\<close>

text \<open>
  Claim C1. For a tenant that resolves to a configuration and whose cache entry holds a
  token with an expiry strictly beyond the clock, \<open>getAccessTokenForInstance\<close> returns that
  token and makes no network call. Consequently, when a first call finds no fresh token,
  exchanges one and returns it, a second call within the lifetime of that token returns the
  same token, and the two calls together have made exactly one token request.
\<close>

theorem cached_token_no_network_call:
  "(resolves w n \<and> ACCESS_TOKEN w n = Some c \<and> truthy (token c)
      \<and> js_gt (expires_at c) (Some (Date_now e (clock_reads w)))
     \<longrightarrow> fst (getAccessTokenForInstance e n w) = Inr (token c)
       \<and> calls (snd (getAccessTokenForInstance e n w)) = calls w)
   \<and> (destructure (config_of w n) = Inr (u, p, ci, cs) \<and> \<not> token_fresh e n w
      \<and> getAccessTokenForInstance e n w = (Inr t, w1) \<and> truthy t \<and> token_fresh e n w1
     \<longrightarrow> fst (getAccessTokenForInstance e n w1) = Inr t
       \<and> calls (snd (getAccessTokenForInstance e n w1)) = calls w @ [TokenRequest u p ci cs])"
proof (intro conjI impI)
  assume a: "resolves w n \<and> ACCESS_TOKEN w n = Some c \<and> truthy (token c)
      \<and> js_gt (expires_at c) (Some (Date_now e (clock_reads w)))"
  then have "token_fresh e n w" by (simp add: token_fresh_def)
  with a show "fst (getAccessTokenForInstance e n w) = Inr (token c)"
    and "calls (snd (getAccessTokenForInstance e n w)) = calls w"
    using token_call_hit[of w n e] by simp_all
next
  assume b: "destructure (config_of w n) = Inr (u, p, ci, cs) \<and> \<not> token_fresh e n w
      \<and> getAccessTokenForInstance e n w = (Inr t, w1) \<and> truthy t \<and> token_fresh e n w1"
  then have first: "getAccessTokenForInstance e n w = (Inr t, w1)" and t: "truthy t"
    and fresh: "token_fresh e n w1" by simp_all
  have "config_of w1 n = config_of w n" using token_call_config[OF first] .
  then have res: "resolves w1 n" using b by (auto simp: destructure_resolves)
  have tok: "map_option token (ACCESS_TOKEN w1 n) = Some t" using token_call_returns_cached[OF first t] .
  have c1: "calls w1 = calls w @ [TokenRequest u p ci cs]"
    using token_call_miss[of w n u p ci cs e] b by simp
  show "fst (getAccessTokenForInstance e n w1) = Inr t"
    using token_call_hit(1)[OF res fresh] tok by auto
  show "calls (snd (getAccessTokenForInstance e n w1)) = calls w @ [TokenRequest u p ci cs]"
    using token_call_hit(2)[OF res fresh] c1 by simp
qed

theorem cached_token_no_network_call_witness:
  "resolves world_cached ''Amado''
   \<and> ACCESS_TOKEN world_cached ''Amado'' = Some \<lparr>token = JStr ''tok1'', expires_at = Some 3601000\<rparr>
   \<and> js_gt (Some 3601000) (Some (Date_now (env_demo (token_server 3600)) (clock_reads world_cached)))
   \<and> getAccessTokenForInstance (env_demo (token_server 3600)) ''Amado'' world_demo
       = (Inr (JStr ''tok1''), world_cached)
   \<and> \<not> token_fresh (env_demo (token_server 3600)) ''Amado'' world_demo
   \<and> token_fresh (env_demo (token_server 3600)) ''Amado'' world_cached
   \<and> fst (getAccessTokenForInstance (env_demo (token_server 3600)) ''Amado'' world_cached) = Inr (JStr ''tok1'')
   \<and> calls (snd (getAccessTokenForInstance (env_demo (token_server 3600)) ''Amado'' world_cached))
       = [TokenRequest (JStr ''u'') (JStr ''p'') (JStr ''id'') (JStr ''s'')]
   \<and> calls world_cached = [TokenRequest (JStr ''u'') (JStr ''p'') (JStr ''id'') (JStr ''s'')]"
proof -
  let ?e = "env_demo (token_server 3600)"
  let ?c = "\<lparr>token = JStr ''tok1'', expires_at = Some 3601000\<rparr>"
  have first: "getAccessTokenForInstance ?e ''Amado'' world_demo = (Inr (JStr ''tok1''), world_cached)"
    using first_call_demo(1)[of 3600] by (simp add: world_cached_def prod_eq_iff)
  have cfg: "config_of world_cached ''Amado'' = config_demo"
    using token_call_config[OF first, of "''Amado''"] by (simp add: config_of_world_demo)
  have res: "resolves world_cached ''Amado''"
    by (simp add: resolves_def cfg config_demo_def)
  have d: "destructure (config_of world_demo ''Amado'') = Inr (JStr ''u'', JStr ''p'', JStr ''id'', JStr ''s'')"
    by (simp add: config_of_world_demo config_demo_def destructure_def)
  have tok: "ACCESS_TOKEN world_cached ''Amado'' = Some ?c"
    using first_call_demo(3)[of 3600] by (simp add: world_cached_def)
  have reads: "clock_reads world_cached = 1"
    using first_call_demo(4)[of 3600] by (simp add: world_cached_def)
  have calls0: "calls world_demo = []" by (simp add: world_demo_def)
  have calls1: "calls world_cached = [TokenRequest (JStr ''u'') (JStr ''p'') (JStr ''id'') (JStr ''s'')]"
    using first_call_demo(2)[of 3600] by (simp add: world_cached_def)
  have stale: "\<not> token_fresh ?e ''Amado'' world_demo"
    by (simp add: token_fresh_def world_demo_def)
  have fresh: "token_fresh ?e ''Amado'' world_cached"
    by (simp add: token_fresh_def tok reads env_demo_def)
  have gt: "js_gt (expires_at ?c) (Some (Date_now ?e (clock_reads world_cached)))"
    by (simp add: reads env_demo_def)
  have hit: "fst (getAccessTokenForInstance ?e ''Amado'' world_cached) = Inr (token ?c)
      \<and> calls (snd (getAccessTokenForInstance ?e ''Amado'' world_cached)) = calls world_cached"
    using cached_token_no_network_call[where w = world_cached and n = "''Amado''" and e = ?e and c = ?c,
        THEN conjunct1] res tok gt by simp
  have twice: "fst (getAccessTokenForInstance ?e ''Amado'' world_cached) = Inr (JStr ''tok1'')
      \<and> calls (snd (getAccessTokenForInstance ?e ''Amado'' world_cached))
          = calls world_demo @ [TokenRequest (JStr ''u'') (JStr ''p'') (JStr ''id'') (JStr ''s'')]"
    using cached_token_no_network_call[where w = world_demo and n = "''Amado''" and e = ?e
        and u = "JStr ''u''" and p = "JStr ''p''" and ci = "JStr ''id''" and cs = "JStr ''s''"
        and t = "JStr ''tok1''" and ?w1.0 = world_cached, THEN conjunct2] d stale first fresh by simp
  show ?thesis
    using hit twice res tok gt first stale fresh calls0 calls1 by simp
qed

text \<open>
  Claim C5 says that an unknown tenant yields a failure value. The code destructures the
  result of \<open>getConfig\<close> before its \<^verbatim>\<open>try\<close>: for a name that does not resolve, the call
  throws a TypeError, before any network call.
\<close>

theorem unknown_tenant_throws:
  assumes "\<not> resolves w n"
  shows "fst (getAccessTokenForInstance e n w) = Inl TypeError
         \<and> calls (snd (getAccessTokenForInstance e n w)) = calls w"
  using token_call_unresolved[OF assms] by simp

theorem unknown_tenant_throws_witness:
  "\<not> resolves world_demo ''Acme''
   \<and> fst (getAccessTokenForInstance (env_demo (token_server 3600)) ''Acme'' world_demo) = Inl TypeError
   \<and> calls (snd (getAccessTokenForInstance (env_demo (token_server 3600)) ''Acme'' world_demo)) = []"
proof -
  have h: "\<not> resolves world_demo ''Acme''" by (simp add: resolves_def config_of_world_demo)
  have c: "calls world_demo = []" by (simp add: world_demo_def)
  show ?thesis
    using unknown_tenant_throws[OF h, of "env_demo (token_server 3600)"] h c by simp
qed




section \<open>The paginated search: claims\<close>

text \<open>
  Claim C2. Let the server hold 120 records and answer every page request with the slice of
  at most 50 records at the requested offset and with total 120. Then, for a configured
  instance, \<open>searchOrders\<close> returns the 120 records in the server's order, and the page
  requests it has added are exactly three, at offsets 0, 50 and 100.
\<close>

theorem searchOrders_three_pages:
  assumes "length rs = 120" and "i \<in> set Instance_values" and "resolves w i"
    and "\<forall>n off tok. \<exists>j. fetch e n (OrdersRequest q limit off tok) = Response 200 (Some j)
            \<and> get j ''orders'' = Inr (JArr (take limit (drop off rs)))
            \<and> get j ''total'' = Inr (JNum 120)"
  shows "\<exists>t1 t2 t3 w'. searchOrders e q i w = Some (Inr (JArr rs), w')
           \<and> page_requests (calls w') = page_requests (calls w)
                @ [OrdersRequest q limit 0 t1, OrdersRequest q limit 50 t2, OrdersRequest q limit 100 t3]"
proof -
  let ?P = "\<lambda>off j. get j ''orders'' = Inr (JArr (take limit (drop off rs))) \<and> get j ''total'' = Inr (JNum 120)"
  have srv: "\<forall>n tok. \<exists>j. fetch e n (OrdersRequest q limit off tok) = Response 200 (Some j) \<and> ?P off j" for off
    using assms(4) by blast
  obtain t0 w0 where t0: "getAccessTokenForInstance e i w = (Inr t0, w0)" "resolves w0 i"
      "page_requests (calls w0) = page_requests (calls w)"
    using token_call_resolved[OF assms(3), of e] by auto
  have l1: "take 50 rs \<noteq> []" "length (take 50 rs) = 50" using assms(1) by auto
  have l2: "take 50 (drop 50 rs) \<noteq> []" "length (take 50 (drop 50 rs)) = 50" using assms(1) by auto
  have l3: "take 50 (drop 100 rs) \<noteq> []" "length (take 50 (drop 100 rs)) = 20" using assms(1) by auto
  have all: "take 50 rs @ take 50 (drop 50 rs) @ take 50 (drop 100 rs) = rs"
  proof -
    have a: "take 50 rs @ take 50 (drop 50 rs) = take 100 rs" using take_add[of 50 50 rs] by simp
    have b: "take 50 (drop 100 rs) = drop 100 rs" using assms(1) by simp
    have "(take 50 rs @ take 50 (drop 50 rs)) @ take 50 (drop 100 rs) = rs"
      unfolding a b by (rule append_take_drop_id)
    then show ?thesis by simp
  qed
  obtain t1 w1 j1 where p1: "searchOrders_pass e q i 0 [] 0 w0 = (handle_page 0 [] 0 j1, w1)" "?P 0 j1"
      "resolves w1 i" "page_requests (calls w1) = page_requests (calls w0) @ [OrdersRequest q limit 0 t1]"
    using pass_served[OF t0(2) srv[of 0], of "[]" 0] by auto
  have h1: "handle_page 0 [] 0 j1 = Continue 50 (take 50 rs) 120"
    using handle_page_records[of j1 "JNum 120" "JArr (take 50 rs)" 0 "[]" 0] p1(2) l1
    by (simp add: limit_def)
  obtain t2 w2 j2 where p2: "searchOrders_pass e q i 50 (take 50 rs) 120 w1 = (handle_page 50 (take 50 rs) 120 j2, w2)"
      "?P 50 j2" "resolves w2 i"
      "page_requests (calls w2) = page_requests (calls w1) @ [OrdersRequest q limit 50 t2]"
    using pass_served[OF p1(3) srv[of 50], of "take 50 rs" 120] by auto
  have h2: "handle_page 50 (take 50 rs) 120 j2 = Continue 100 (take 50 rs @ take 50 (drop 50 rs)) 120"
    using handle_page_records[of j2 "JNum 120" "JArr (take 50 (drop 50 rs))" 50 "take 50 rs" 120] p2(2) l1 l2
    by (simp add: limit_def)
  obtain t3 w3 j3 where p3: "searchOrders_pass e q i 100 (take 50 rs @ take 50 (drop 50 rs)) 120 w2
        = (handle_page 100 (take 50 rs @ take 50 (drop 50 rs)) 120 j3, w3)"
      "?P 100 j3" "resolves w3 i"
      "page_requests (calls w3) = page_requests (calls w2) @ [OrdersRequest q limit 100 t3]"
    using pass_served[OF p2(3) srv[of 100], of "take 50 rs @ take 50 (drop 50 rs)" 120] by auto
  have h3: "handle_page 100 (take 50 rs @ take 50 (drop 50 rs)) 120 j3 = Finished (Inr (JArr rs))"
    using handle_page_records[of j3 "JNum 120" "JArr (take 50 (drop 100 rs))" 100
        "take 50 rs @ take 50 (drop 50 rs)" 120] p3(2) l1 l2 l3 all
    by (simp add: limit_def)
  have loop3: "searchOrders_loop e q i 100 (take 50 rs @ take 50 (drop 50 rs)) 120 w2 = Some (Inr (JArr rs), w3)"
    by (subst searchOrders_loop.simps) (simp add: p3(1) h3)
  have loop2: "searchOrders_loop e q i 50 (take 50 rs) 120 w1 = Some (Inr (JArr rs), w3)"
    by (subst searchOrders_loop.simps) (simp add: p2(1) h2 loop3)
  have loop1: "searchOrders_loop e q i 0 [] 0 w0 = Some (Inr (JArr rs), w3)"
    by (subst searchOrders_loop.simps) (simp add: p1(1) h1 loop2)
  have "searchOrders e q i w = Some (Inr (JArr rs), w3)"
    using assms(2) t0(1) loop1 by (simp add: searchOrders_def)
  moreover have "page_requests (calls w3) = page_requests (calls w)
      @ [OrdersRequest q limit 0 t1, OrdersRequest q limit 50 t2, OrdersRequest q limit 100 t3]"
    using p1(4) p2(4) p3(4) t0(3) by simp
  ultimately show ?thesis by blast
qed


theorem searchOrders_three_pages_witness:
  "length records_demo = 120 \<and> ''Amado'' \<in> set Instance_values \<and> resolves world_demo ''Amado''
   \<and> map_option fst (searchOrders (env_demo (shop_server records_demo [(''total'', JNum 120)]))
        ''in_status_ids=delivered'' ''Amado'' world_demo) = Some (Inr (JArr records_demo))"
proof -
  let ?e = "env_demo (shop_server records_demo [(''total'', JNum 120)])"
  have len: "length records_demo = 120" by (simp add: records_demo_def)
  have inst: "''Amado'' \<in> set Instance_values" by (simp add: Instance_values_def)
  have srv: "\<forall>n off tok. \<exists>j. fetch ?e n (OrdersRequest ''in_status_ids=delivered'' limit off tok) = Response 200 (Some j)
            \<and> get j ''orders'' = Inr (JArr (take limit (drop off records_demo)))
            \<and> get j ''total'' = Inr (JNum 120)"
    by (simp add: env_demo_def shop_server_def)
  show ?thesis
    using searchOrders_three_pages[OF len inst resolves_world_demo srv] len inst resolves_world_demo
    by auto
qed

text \<open>
  Claim C4. In any pass of the loop, whatever the offset, the records accumulated and the
  total known or reported: when the page answers 200 and its \<^verbatim>\<open>orders\<close> member is absent
  or the empty array, the search returns the records accumulated so far as its normal
  result, after that one page request.
\<close>

theorem empty_page_stops:
  assumes "getAccessTokenForInstance e i w = (Inr tok, w1)"
    and "fetch e (length (calls w1)) (OrdersRequest q limit off tok) = Response 200 (Some j)"
    and "get j ''orders'' = Inr ords" and "ords = JUndefined \<or> ords = JArr []"
  shows "searchOrders_loop e q i off acc tot w
           = Some (Inr (JArr acc), w1\<lparr>calls := calls w1 @ [OrdersRequest q limit off tok]\<rparr>)"
proof -
  have "no_orders ords" using assms(4) by auto
  then have "handle_page off acc tot j = Finished (Inr (JArr acc))"
    using handle_page_empty[OF assms(3)] by simp
  then have "searchOrders_pass e q i off acc tot w
      = (Finished (Inr (JArr acc)), w1\<lparr>calls := calls w1 @ [OrdersRequest q limit off tok]\<rparr>)"
    using pass_page[OF assms(1,2)] by simp
  then show ?thesis by (subst searchOrders_loop.simps) simp
qed


theorem empty_page_stops_witness:
  "fetch (env_demo (shop_server [] [(''total'', JNum 120)])) 1
       (OrdersRequest ''in_status_ids=delivered'' limit 50 (JStr ''tok1''))
     = Response 200 (Some (JObj [(''orders'', JArr []), (''total'', JNum 120)]))
   \<and> map_option fst (searchOrders_loop (env_demo (shop_server [] [(''total'', JNum 120)]))
        ''in_status_ids=delivered'' ''Amado'' 50 [JStr ''kept''] 120 world_demo)
       = Some (Inr (JArr [JStr ''kept'']))"
proof -
  let ?e = "env_demo (shop_server [] [(''total'', JNum 120)])"
  let ?w1 = "snd (getAccessTokenForInstance ?e ''Amado'' world_demo)"
  let ?j = "JObj [(''orders'', JArr []), (''total'', JNum 120)]"
  have tok: "getAccessTokenForInstance ?e ''Amado'' world_demo = (Inr (JStr ''tok1''), ?w1)"
    by (rule first_call_served) (simp add: shop_server_def)
  have page: "fetch ?e n (OrdersRequest ''in_status_ids=delivered'' limit 50 (JStr ''tok1'')) = Response 200 (Some ?j)" for n
    by (simp add: env_demo_def shop_server_def)
  have ords: "get ?j ''orders'' = Inr (JArr [])" by simp
  show ?thesis
    using empty_page_stops[OF tok page ords, of "[JStr ''kept'']" 120] page[of 1] by simp
qed

text \<open>
  Claim C6 as stated fails: nothing in the loop compares a page with the total before
  appending it. A server that reports total 1 and sends two records gets both returned.
\<close>

theorem more_records_than_total:
  "map_option fst (searchOrders (env_demo (shop_server [JStr ''a'', JStr ''b''] [(''total'', JNum 1)]))
        ''in_status_ids=delivered'' ''Amado'' world_demo)
     = Some (Inr (JArr [JStr ''a'', JStr ''b'']))
   \<and> fetch (env_demo (shop_server [JStr ''a'', JStr ''b''] [(''total'', JNum 1)])) 1
        (OrdersRequest ''in_status_ids=delivered'' 50 0 (JStr ''tok1''))
     = Response 200 (Some (JObj [(''orders'', JArr [JStr ''a'', JStr ''b'']), (''total'', JNum 1)]))
   \<and> \<not> real (length [JStr ''a'', JStr ''b'']) \<le> 1"
  by code_simp

text \<open>
  Claim C6, amended. Whenever a pass ends with the decision to fetch another page, the
  records accumulated, with the page just appended, are strictly fewer than the total last
  reported (the previous one where the response had none), and so is the next offset.
  Nothing bounds the length when the loop stops.
\<close>

theorem loop_continues_below_total:
  assumes "searchOrders_pass e q i off acc tot w = (Continue off' acc' tot', w')"
  shows "\<exists>j rep ords. get j ''total'' = Inr rep \<and> tot' = read_total tot rep
           \<and> get j ''orders'' = Inr ords \<and> acc' = concat_js acc ords
           \<and> off' = off + limit \<and> real (length acc') < tot' \<and> real off' < tot'"
  using pass_Continue[OF assms] handle_page_Continue by blast


theorem loop_continues_below_total_witness:
  "fst (searchOrders_pass (env_demo (shop_server records_demo [(''total'', JNum 120)]))
        ''in_status_ids=delivered'' ''Amado'' 0 [] 0 world_demo) = Continue 50 (take 50 records_demo) 120
   \<and> real (length (take 50 records_demo)) < 120 \<and> real (50::nat) < (120::real)"
proof -
  let ?p = "searchOrders_pass (env_demo (shop_server records_demo [(''total'', JNum 120)]))
        ''in_status_ids=delivered'' ''Amado'' 0 [] 0 world_demo"
  have f: "fst ?p = Continue 50 (take 50 records_demo) 120" by code_simp
  then have h: "?p = (Continue 50 (take 50 records_demo) 120, snd ?p)" by (simp add: prod_eq_iff)
  show ?thesis using loop_continues_below_total[OF h] f by auto
qed

text \<open>
  Claim C7 as stated fails: the total starts at 0, not at infinity. A server that holds 120
  records and never reports a total is asked for one page only, and the first 50 records are
  returned.
\<close>

theorem stops_without_total:
  "map_option fst (searchOrders (env_demo (shop_server records_demo []))
        ''in_status_ids=delivered'' ''Amado'' world_demo) = Some (Inr (JArr (take 50 records_demo)))
   \<and> page_requests (calls (snd (the (searchOrders (env_demo (shop_server records_demo []))
        ''in_status_ids=delivered'' ''Amado'' world_demo))))
     = [OrdersRequest ''in_status_ids=delivered'' 50 0 (JStr ''tok1'')]
   \<and> length records_demo = 120"
  by code_simp

text \<open>
  Claim C7, amended. The total starts at 0 and a response whose \<^verbatim>\<open>total\<close> is absent, not a
  number or zero leaves it as it is. Therefore, when the first page response carries no
  such total, \<open>searchOrders\<close> stops after that single page request and returns the records
  of that page, empty or not.
\<close>

theorem searchOrders_without_total:
  assumes "i \<in> set Instance_values" and "resolves w i"
    and "\<forall>n tok. fetch e n (OrdersRequest q limit 0 tok) = Response 200 (Some j)"
    and "get j ''total'' = Inr rep" and "\<forall>r. rep = JNum r \<longrightarrow> r = 0"
    and "get j ''orders'' = Inr ords"
  shows "(\<forall>tot. read_total tot rep = tot)
       \<and> (\<exists>tok w'. searchOrders e q i w
              = Some (Inr (JArr (if no_orders ords then [] else concat_js [] ords)), w')
            \<and> page_requests (calls w') = page_requests (calls w) @ [OrdersRequest q limit 0 tok])"
proof
  show keep: "\<forall>tot. read_total tot rep = tot" using assms(5) by (cases rep) simp_all
  obtain t0 w0 where t0: "getAccessTokenForInstance e i w = (Inr t0, w0)" "resolves w0 i"
      "page_requests (calls w0) = page_requests (calls w)"
    using token_call_resolved[OF assms(2), of e] by auto
  have srv: "\<forall>n tok. \<exists>j'. fetch e n (OrdersRequest q limit 0 tok) = Response 200 (Some j') \<and> j' = j"
    using assms(3) by simp
  obtain tok w1 where p: "searchOrders_pass e q i 0 [] 0 w0 = (handle_page 0 [] 0 j, w1)"
      "page_requests (calls w1) = page_requests (calls w0) @ [OrdersRequest q limit 0 tok]"
    using pass_served[OF t0(2) srv, of "[]" 0] by auto
  have hp: "handle_page 0 [] 0 j = Finished (Inr (JArr (if no_orders ords then [] else concat_js [] ords)))"
  proof (cases "no_orders ords")
    case True
    then show ?thesis using handle_page_empty[OF assms(6)] by simp
  next
    case False
    then show ?thesis using handle_page_records[OF assms(4,6)] keep by simp
  qed
  have "searchOrders_loop e q i 0 [] 0 w0
      = Some (Inr (JArr (if no_orders ords then [] else concat_js [] ords)), w1)"
    by (subst searchOrders_loop.simps) (simp add: p(1) hp)
  then have "searchOrders e q i w = Some (Inr (JArr (if no_orders ords then [] else concat_js [] ords)), w1)"
    using assms(1) t0(1) by (simp add: searchOrders_def)
  then show "\<exists>tok w'. searchOrders e q i w
              = Some (Inr (JArr (if no_orders ords then [] else concat_js [] ords)), w')
            \<and> page_requests (calls w') = page_requests (calls w) @ [OrdersRequest q limit 0 tok]"
    using p(2) t0(3) by auto
qed


theorem searchOrders_without_total_witness:
  "''Amado'' \<in> set Instance_values \<and> resolves world_demo ''Amado''
   \<and> get (JObj [(''orders'', JArr [JStr ''a'', JStr ''b'']), (''total'', JStr ''many'')]) ''total'' = Inr (JStr ''many'')
   \<and> map_option fst (searchOrders (env_demo (shop_server [JStr ''a'', JStr ''b''] [(''total'', JStr ''many'')]))
        ''in_status_ids=delivered'' ''Amado'' world_demo) = Some (Inr (JArr [JStr ''a'', JStr ''b'']))"
proof -
  let ?e = "env_demo (shop_server [JStr ''a'', JStr ''b''] [(''total'', JStr ''many'')])"
  let ?j = "JObj [(''orders'', JArr [JStr ''a'', JStr ''b'']), (''total'', JStr ''many'')]"
  have inst: "''Amado'' \<in> set Instance_values" by (simp add: Instance_values_def)
  have srv: "\<forall>n tok. fetch ?e n (OrdersRequest ''in_status_ids=delivered'' limit 0 tok) = Response 200 (Some ?j)"
    by (simp add: env_demo_def shop_server_def limit_def)
  have rep: "get ?j ''total'' = Inr (JStr ''many'')" by simp
  have nonum: "\<forall>r. JStr ''many'' = JNum r \<longrightarrow> r = 0" by simp
  have ords: "get ?j ''orders'' = Inr (JArr [JStr ''a'', JStr ''b''])" by simp
  show ?thesis
    using searchOrders_without_total[OF inst resolves_world_demo srv rep nonum ords] inst resolves_world_demo
    by auto
qed

section \<open>The retry loop: claims\<close>

text \<open>
  Claim C3. Once the token and the subdomain are there, \<open>findOrdersByContainerId\<close> sends
  the search request at most \<open>maxRetries = 3\<close> times and nothing else. When every answer is
  503 it sends it exactly three times and returns \<^verbatim>\<open>null\<close>; when the first answer is 400 it
  sends it once and returns \<^verbatim>\<open>null\<close>; and at any attempt an answer with a 4xx code ends the
  loop with \<^verbatim>\<open>null\<close> after that one request.
\<close>

theorem retry_at_most_three:
  assumes "getAccessTokenForInstance e i w = (Inr tok, w1)" and "truthy tok"
    and "get (instanceManager2_getConfig i) ''subdomain'' = Inr sd" and "truthy sd"
  shows "maxRetries = 3
       \<and> (\<exists>k\<le>maxRetries. calls (snd (findOrdersByContainerId e i cid w))
              = calls w1 @ replicate k (TwoStageRequest sd cid tok))
       \<and> ((\<forall>n. \<exists>c. fetch e n (TwoStageRequest sd cid tok) = Response 503 c)
            \<longrightarrow> fst (findOrdersByContainerId e i cid w) = Inr JNull
              \<and> calls (snd (findOrdersByContainerId e i cid w))
                  = calls w1 @ replicate 3 (TwoStageRequest sd cid tok))
       \<and> ((\<exists>c. fetch e (length (calls w1)) (TwoStageRequest sd cid tok) = Response 400 c)
            \<longrightarrow> fst (findOrdersByContainerId e i cid w) = Inr JNull
              \<and> calls (snd (findOrdersByContainerId e i cid w)) = calls w1 @ [TwoStageRequest sd cid tok])
       \<and> (\<forall>attempt w2 code c. attempt \<le> maxRetries
              \<and> fetch e (length (calls w2)) (TwoStageRequest sd cid tok) = Response code c
              \<and> 400 \<le> code \<and> code < 500
            \<longrightarrow> retry_loop e (TwoStageRequest sd cid tok) attempt w2
                  = (JNull, w2\<lparr>calls := calls w2 @ [TwoStageRequest sd cid tok]\<rparr>))"
proof -
  let ?rq = "TwoStageRequest sd cid tok"
  note unf = find_orders_unfold[OF assms, of cid]
  have a: "maxRetries = 3" by (simp add: maxRetries_def)
  have b: "\<exists>k\<le>maxRetries. calls (snd (findOrdersByContainerId e i cid w)) = calls w1 @ replicate k ?rq"
    using retry_loop_bound[of 1 e ?rq w1] unf by simp
  have c: "fst (findOrdersByContainerId e i cid w) = Inr JNull
         \<and> calls (snd (findOrdersByContainerId e i cid w)) = calls w1 @ replicate 3 ?rq"
    if "\<forall>n. \<exists>c. fetch e n ?rq = Response 503 c"
  proof -
    have "\<forall>n. \<exists>code c. fetch e n ?rq = Response code c \<and> code \<ge> 500" using that by fastforce
    from retry_loop_all_5xx[OF this, of 1 w1] show ?thesis using unf a by simp
  qed
  have d: "retry_loop e ?rq attempt w2 = (JNull, w2\<lparr>calls := calls w2 @ [?rq]\<rparr>)"
    if "attempt \<le> maxRetries" "fetch e (length (calls w2)) ?rq = Response code c" "400 \<le> code" "code < 500"
    for attempt w2 code c
    using retry_loop_final[OF that(1,2)] that(3,4) by simp
  have e: "fst (findOrdersByContainerId e i cid w) = Inr JNull
         \<and> calls (snd (findOrdersByContainerId e i cid w)) = calls w1 @ [?rq]"
    if "\<exists>c. fetch e (length (calls w1)) ?rq = Response 400 c"
  proof -
    from that obtain c where "fetch e (length (calls w1)) ?rq = Response 400 c" by blast
    from d[OF _ this] show ?thesis using unf a by simp
  qed
  show ?thesis using a b c d e by blast
qed


theorem retry_at_most_three_witness:
  "fst (findOrdersByContainerId (env_demo (failing_server 503)) ''Amado'' ''CAAU5142250'' world_demo) = Inr JNull
   \<and> calls (snd (findOrdersByContainerId (env_demo (failing_server 503)) ''Amado'' ''CAAU5142250'' world_demo))
       = [TokenRequest (JStr ''u'') (JStr ''p'') (JStr ''id'') (JStr ''s''),
          TwoStageRequest (JStr ''athn'') ''CAAU5142250'' (JStr ''tok1''),
          TwoStageRequest (JStr ''athn'') ''CAAU5142250'' (JStr ''tok1''),
          TwoStageRequest (JStr ''athn'') ''CAAU5142250'' (JStr ''tok1'')]
   \<and> fst (findOrdersByContainerId (env_demo (failing_server 400)) ''Amado'' ''CAAU5142250'' world_demo) = Inr JNull
   \<and> calls (snd (findOrdersByContainerId (env_demo (failing_server 400)) ''Amado'' ''CAAU5142250'' world_demo))
       = [TokenRequest (JStr ''u'') (JStr ''p'') (JStr ''id'') (JStr ''s''),
          TwoStageRequest (JStr ''athn'') ''CAAU5142250'' (JStr ''tok1'')]
   \<and> calls (snd (retry_loop (env_demo (failing_server 404))
          (TwoStageRequest (JStr ''athn'') ''CAAU5142250'' (JStr ''tok1'')) 2 world_demo))
       = [TwoStageRequest (JStr ''athn'') ''CAAU5142250'' (JStr ''tok1'')]"
proof -
  let ?rq = "TwoStageRequest (JStr ''athn'') ''CAAU5142250'' (JStr ''tok1'')"
  have tok: "getAccessTokenForInstance (env_demo (failing_server code)) ''Amado'' world_demo
      = (Inr (JStr ''tok1''), snd (getAccessTokenForInstance (env_demo (failing_server code)) ''Amado'' world_demo))"
    and cs: "calls (snd (getAccessTokenForInstance (env_demo (failing_server code)) ''Amado'' world_demo))
      = [TokenRequest (JStr ''u'') (JStr ''p'') (JStr ''id'') (JStr ''s'')]" for code
    by (rule first_call_served, simp add: failing_server_def)+
  have tr: "truthy (JStr ''tok1'')" by simp
  have sd: "get (instanceManager2_getConfig ''Amado'') ''subdomain'' = Inr (JStr ''athn'')"
    by (simp add: instanceManager2_getConfig_def)
  have trsd: "truthy (JStr ''athn'')" by simp
  have all503: "\<forall>n. \<exists>c. fetch (env_demo (failing_server 503)) n ?rq = Response 503 c"
    by (simp add: env_demo_def failing_server_def)
  have one400: "\<exists>c. fetch (env_demo (failing_server 400)) n ?rq = Response 400 c" for n
    by (simp add: env_demo_def failing_server_def)
  have a404: "2 \<le> maxRetries \<and> fetch (env_demo (failing_server 404)) (length (calls world_demo)) ?rq = Response 404 None
      \<and> (400::int) \<le> 404 \<and> (404::int) < 500"
    by (simp add: env_demo_def failing_server_def maxRetries_def)
  have calls0: "calls world_demo = []" by (simp add: world_demo_def)
  have last: "retry_loop (env_demo (failing_server 404)) ?rq 2 world_demo
      = (JNull, world_demo\<lparr>calls := calls world_demo @ [?rq]\<rparr>)"
    using retry_at_most_three[OF tok[of 404] tr sd trsd, of "''CAAU5142250''"] a404 by blast
  show ?thesis
    using retry_at_most_three[OF tok[of 503] tr sd trsd, of "''CAAU5142250''"]
      retry_at_most_three[OF tok[of 400] tr sd trsd, of "''CAAU5142250''"]
      all503 one400 cs last calls0
    by (simp add: numeral_3_eq_3)
qed

section \<open>The webhook receiver: claims\<close>

text \<open>
  Claim C9. For every event object and whatever \<^verbatim>\<open>JSON.parse\<close> does, \<open>doPost\<close> returns (it
  does not throw) a JSON text output whose object starts with a boolean \<^verbatim>\<open>success\<close> member.
\<close>

theorem doPost_always_answers:
  "\<exists>b members. doPost JSON_parse e = Inr (json_output ((''success'', JBool b) # members))"
  by (auto simp: doPost_def doPost_try_def split: sum.splits option.splits)


theorem doPost_always_answers_witness:
  "doPost parse_demo (JObj []) = Inr (json_output [(''success'', JBool False), (''error'', JStr ''Missing postData'')])"
  using doPost_always_answers[of parse_demo "JObj []"]
  by (simp add: doPost_def doPost_try_def)

text \<open>
  Claim C10. \<open>doPost\<close> answers \<^verbatim>\<open>success: true\<close> exactly when the event has a truthy
  \<^verbatim>\<open>postData\<close> with truthy \<^verbatim>\<open>contents\<close> that parse to a payload with truthy \<^verbatim>\<open>event\<close>,
  \<^verbatim>\<open>current_status\<close> and \<^verbatim>\<open>order_id\<close>, the event being \<^verbatim>\<open>order.status_updated\<close> and the
  status \<^verbatim>\<open>in-transit\<close>; the answer then carries exactly that status and that order id. In
  every other case the answer is \<^verbatim>\<open>success: false\<close> followed by an \<^verbatim>\<open>error\<close> text.
\<close>

theorem doPost_success_iff:
  "(truthy e \<and> get e ''postData'' = Inr pd \<and> truthy pd \<and> get pd ''contents'' = Inr c \<and> truthy c
      \<and> JSON_parse c = Some payload
      \<and> get payload ''event'' = Inr ev \<and> truthy ev \<and> ev = JStr ''order.status_updated''
      \<and> get payload ''current_status'' = Inr st \<and> truthy st \<and> st = JStr ''in-transit''
      \<and> get payload ''order_id'' = Inr oid \<and> truthy oid
     \<longrightarrow> doPost JSON_parse e = Inr (json_output [(''success'', JBool True),
            (''data'', JObj [(''current_status'', st), (''order_id'', oid)])]))
   \<and> (doPost JSON_parse e = Inr (json_output ((''success'', JBool True) # rest))
     \<longrightarrow> (\<exists>pd c payload ev st oid.
            truthy e \<and> get e ''postData'' = Inr pd \<and> truthy pd \<and> get pd ''contents'' = Inr c \<and> truthy c
          \<and> JSON_parse c = Some payload
          \<and> get payload ''event'' = Inr ev \<and> truthy ev \<and> ev = JStr ''order.status_updated''
          \<and> get payload ''current_status'' = Inr st \<and> truthy st \<and> st = JStr ''in-transit''
          \<and> get payload ''order_id'' = Inr oid \<and> truthy oid
          \<and> rest = [(''data'', JObj [(''current_status'', st), (''order_id'', oid)])]))
   \<and> (\<exists>b members. doPost JSON_parse e = Inr (json_output ((''success'', JBool b) # members))
          \<and> (\<not> b \<longrightarrow> (\<exists>msg more. members = (''error'', JStr msg) # more)))"
proof (intro conjI impI)
  assume "truthy e \<and> get e ''postData'' = Inr pd \<and> truthy pd \<and> get pd ''contents'' = Inr c \<and> truthy c
      \<and> JSON_parse c = Some payload
      \<and> get payload ''event'' = Inr ev \<and> truthy ev \<and> ev = JStr ''order.status_updated''
      \<and> get payload ''current_status'' = Inr st \<and> truthy st \<and> st = JStr ''in-transit''
      \<and> get payload ''order_id'' = Inr oid \<and> truthy oid"
  then show "doPost JSON_parse e = Inr (json_output [(''success'', JBool True),
            (''data'', JObj [(''current_status'', st), (''order_id'', oid)])])"
    by (simp add: doPost_def doPost_try_def)
next
  assume "doPost JSON_parse e = Inr (json_output ((''success'', JBool True) # rest))"
  then show "\<exists>pd c payload ev st oid.
            truthy e \<and> get e ''postData'' = Inr pd \<and> truthy pd \<and> get pd ''contents'' = Inr c \<and> truthy c
          \<and> JSON_parse c = Some payload
          \<and> get payload ''event'' = Inr ev \<and> truthy ev \<and> ev = JStr ''order.status_updated''
          \<and> get payload ''current_status'' = Inr st \<and> truthy st \<and> st = JStr ''in-transit''
          \<and> get payload ''order_id'' = Inr oid \<and> truthy oid
          \<and> rest = [(''data'', JObj [(''current_status'', st), (''order_id'', oid)])]"
    by (auto simp: doPost_def doPost_try_def json_output_def split: sum.splits option.splits if_splits)
next
  show "\<exists>b members. doPost JSON_parse e = Inr (json_output ((''success'', JBool b) # members))
          \<and> (\<not> b \<longrightarrow> (\<exists>msg more. members = (''error'', JStr msg) # more))"
    by (auto simp: doPost_def doPost_try_def split: sum.splits option.splits)
qed


theorem doPost_success_iff_witness:
  "truthy event_demo \<and> parse_demo (JStr contents_demo) = Some payload_demo
   \<and> get payload_demo ''order_id'' = Inr (JStr ''test_order_id_123'')
   \<and> doPost parse_demo event_demo = Inr (json_output [(''success'', JBool True),
        (''data'', JObj [(''current_status'', JStr ''in-transit''), (''order_id'', JStr ''test_order_id_123'')])])
   \<and> doPost parse_demo (JObj [(''postData'', JObj [(''contents'', JStr ''status'')])])
       = Inr (json_output [(''success'', JBool False), (''error'', JStr ''Invalid JSON payload'')])"
proof -
  have ne: "contents_demo \<noteq> []" by (simp add: contents_demo_def)
  have h: "truthy event_demo \<and> get event_demo ''postData'' = Inr (JObj [(''contents'', JStr contents_demo)])
      \<and> truthy (JObj [(''contents'', JStr contents_demo)])
      \<and> get (JObj [(''contents'', JStr contents_demo)]) ''contents'' = Inr (JStr contents_demo)
      \<and> truthy (JStr contents_demo)
      \<and> parse_demo (JStr contents_demo) = Some payload_demo
      \<and> get payload_demo ''event'' = Inr (JStr ''order.status_updated'') \<and> truthy (JStr ''order.status_updated'')
      \<and> JStr ''order.status_updated'' = JStr ''order.status_updated''
      \<and> get payload_demo ''current_status'' = Inr (JStr ''in-transit'') \<and> truthy (JStr ''in-transit'')
      \<and> JStr ''in-transit'' = JStr ''in-transit''
      \<and> get payload_demo ''order_id'' = Inr (JStr ''test_order_id_123'') \<and> truthy (JStr ''test_order_id_123'')"
    using ne by (simp add: event_demo_def parse_demo_def payload_demo_def)
  have ok: "doPost parse_demo event_demo = Inr (json_output [(''success'', JBool True),
        (''data'', JObj [(''current_status'', JStr ''in-transit''), (''order_id'', JStr ''test_order_id_123'')])])"
    by (rule doPost_success_iff[where e = event_demo and rest = "[]"
          and pd = "JObj [(''contents'', JStr contents_demo)]" and c = "JStr contents_demo"
          and JSON_parse = parse_demo and payload = payload_demo
          and ev = "JStr ''order.status_updated''" and st = "JStr ''in-transit''"
          and oid = "JStr ''test_order_id_123''", THEN conjunct1, THEN mp, OF h])
  have differ: "JStr ''status'' \<noteq> JStr contents_demo" by (simp add: contents_demo_def)
  have bad: "doPost parse_demo (JObj [(''postData'', JObj [(''contents'', JStr ''status'')])])
       = Inr (json_output [(''success'', JBool False), (''error'', JStr ''Invalid JSON payload'')])"
    using differ by (simp add: doPost_def doPost_try_def parse_demo_def)
  show ?thesis using ok bad h by simp
qed

end
